theory Spec2Isabelle
  imports Main "HOL-Library.Sublist"
begin

section \<open>Python values used by app.py\<close>

text \<open>
  A Python \<open>str\<close> is modelled as a \<open>string\<close>: a list of characters whose code points are
  below 256 (none of the properties below depends on the size of the alphabet). A character
  is outside the 7-bit ASCII range when its code point is above 127. A \<open>bytes\<close> value is a
  list of 8-bit characters too.

  A \<open>pysrt.SubRipTime\<close> is its ordinal, an unbounded integer number of milliseconds;
  a \<open>datetime.timedelta\<close> is an integer number of microseconds between
  \<open>timedelta.min\<close> and \<open>timedelta.max\<close>; building one outside that range raises
  \<open>OverflowError\<close>.

  The exceptions are told apart by the call that raises them: \<open>OverflowError\<close> from the
  arithmetic on \<open>timedelta\<close>, \<open>FileError\<close> for whatever \<open>pysrt.open\<close> raises on a path it
  cannot load, \<open>SendError\<close> for what \<open>conn.sendall\<close> raises and \<open>RecvError\<close> for what
  \<open>conn.recv(1024).decode()\<close> raises. All of them are caught by \<open>except Exception\<close>.
\<close>

type_synonym bytes = string
type_synonym srt_time = int
type_synonym timedelta = int

datatype error = OverflowError | FileError | SendError | RecvError

record sub =
  sub_text :: string
  sub_start :: srt_time
  sub_end :: srt_time

subsection \<open>Strings\<close>

definition startswith :: "string \<Rightarrow> string \<Rightarrow> bool" where
  "startswith s p = (take (length p) s = p)"

definition endswith :: "string \<Rightarrow> string \<Rightarrow> bool" where
  "endswith s x = (length x \<le> length s \<and> drop (length s - length x) s = x)"

text \<open>\<open>str_in x s\<close> is Python's \<open>x in s\<close>.\<close>

fun str_in :: "string \<Rightarrow> string \<Rightarrow> bool" where
  "str_in x [] = (x = [])"
| "str_in x (c # cs) = (startswith (c # cs) x \<or> str_in x cs)"

text \<open>
  \<open>str.replace(old, new)\<close>: every occurrence of \<open>old\<close>, found from left to right without
  overlap, is replaced by \<open>new\<close>; an empty \<open>old\<close> matches before every character and at
  the end.
\<close>

function replace :: "string \<Rightarrow> string \<Rightarrow> string \<Rightarrow> string" where
  "replace old new [] = (if old = [] then new else [])"
| "replace old new (c # cs) =
     (if old = [] then new @ c # replace old new cs
      else if startswith (c # cs) old then new @ replace old new (drop (length old) (c # cs))
      else c # replace old new cs)"
  by pat_completeness auto
termination
  by (relation "measure (\<lambda>(old, new, s). length s)") auto

text \<open>\<open>str.isspace\<close> on one character, for code points below 256.\<close>

definition isspace :: "char \<Rightarrow> bool" where
  "isspace c = (let n = (of_char c :: nat)
                in (9 \<le> n \<and> n \<le> 13) \<or> (28 \<le> n \<and> n \<le> 32) \<or> n = 133 \<or> n = 160)"

definition strip :: "string \<Rightarrow> string" where
  "strip s = rev (dropWhile isspace (rev (dropWhile isspace s)))"

text \<open>\<open>re.sub(r"[ \n]+", " ", s)\<close>: each maximal run of spaces and newlines becomes one space.\<close>

definition sp_nl :: "char \<Rightarrow> bool" where
  "sp_nl c = (c = CHR '' '' \<or> c = CHR 0x0A)"

function re_sub_ws :: "string \<Rightarrow> string" where
  "re_sub_ws [] = []"
| "re_sub_ws (c # cs) =
     (if sp_nl c then CHR '' '' # re_sub_ws (dropWhile sp_nl cs) else c # re_sub_ws cs)"
  by pat_completeness auto
termination
  by (relation "measure length") (auto simp: length_dropWhile_le less_Suc_eq_le)

text \<open>\<open>str.lower\<close> and \<open>str.upper\<close> (the latter is applied to the two ASCII suffixes only).\<close>

definition lower_char :: "char \<Rightarrow> char" where
  "lower_char c = (let n = (of_char c :: nat)
                   in if (65 \<le> n \<and> n \<le> 90) \<or> (192 \<le> n \<and> n \<le> 222 \<and> n \<noteq> 215)
                      then char_of (n + 32) else c)"

definition lower :: "string \<Rightarrow> string" where
  "lower s = map lower_char s"

definition upper_char :: "char \<Rightarrow> char" where
  "upper_char c = (let n = (of_char c :: nat)
                   in if 97 \<le> n \<and> n \<le> 122 then char_of (n - 32) else c)"

definition upper :: "string \<Rightarrow> string" where
  "upper s = map upper_char s"

text \<open>\<open>sep.join(parts)\<close>.\<close>

fun str_join :: "string \<Rightarrow> string list \<Rightarrow> string" where
  "str_join sep [] = []"
| "str_join sep [x] = x"
| "str_join sep (x # y # ys) = x @ sep @ str_join sep (y # ys)"

text \<open>\<open>str.encode()\<close>: UTF-8, one byte below 128 and two bytes from 128 to 255.\<close>

definition encode_char :: "char \<Rightarrow> bytes" where
  "encode_char c = (let n = (of_char c :: nat)
                    in if n < 128 then [c] else [char_of (192 + n div 64), char_of (128 + n mod 64)])"

definition encode :: "string \<Rightarrow> bytes" where
  "encode s = concat (map encode_char s)"

subsection \<open>Paths\<close>

text \<open>\<open>os.path.basename\<close>, \<open>os.path.dirname\<close> and \<open>os.path.join\<close> as \<open>posixpath\<close> defines them.\<close>

definition basename :: "string \<Rightarrow> string" where
  "basename p = rev (takeWhile (\<lambda>c. c \<noteq> CHR ''/'') (rev p))"

definition dirname :: "string \<Rightarrow> string" where
  "dirname p = (let head = rev (dropWhile (\<lambda>c. c \<noteq> CHR ''/'') (rev p))
                in if head \<noteq> [] \<and> head \<noteq> replicate (length head) CHR ''/''
                   then rev (dropWhile (\<lambda>c. c = CHR ''/'') (rev head)) else head)"

definition path_join :: "string \<Rightarrow> string \<Rightarrow> string" where
  "path_join a b = (if startswith b ''/'' then b
                    else if a = [] \<or> endswith a ''/'' then a @ b
                    else a @ ''/'' @ b)"

subsection \<open>Times\<close>

text \<open>The components of a \<open>SubRipTime\<close>, read from its ordinal.\<close>

definition hours :: "srt_time \<Rightarrow> int" where
  "hours t = t div 3600000"

definition minutes :: "srt_time \<Rightarrow> int" where
  "minutes t = t mod 3600000 div 60000"

definition seconds :: "srt_time \<Rightarrow> int" where
  "seconds t = t mod 60000 div 1000"

definition milliseconds :: "srt_time \<Rightarrow> int" where
  "milliseconds t = t mod 1000"

definition timedelta_min :: timedelta where
  "timedelta_min = - (999999999 * 86400000000)"

definition timedelta_max :: timedelta where
  "timedelta_max = 1000000000 * 86400000000 - 1"

text \<open>The constructor, from a number of microseconds.\<close>

definition timedelta :: "int \<Rightarrow> error + timedelta" where
  "timedelta us = (if timedelta_min \<le> us \<and> us \<le> timedelta_max then Inr us else Inl OverflowError)"

definition to_timedelta :: "srt_time \<Rightarrow> error + timedelta" where
  "to_timedelta srt_time =
     timedelta (hours srt_time * 3600000000 + minutes srt_time * 60000000
                + seconds srt_time * 1000000 + milliseconds srt_time * 1000)"

section \<open>find_closest_sub\<close>

text \<open>
  The loop of \<open>find_closest_sub\<close>; its state is the pair \<open>(closest_sub, min_time_diff)\<close>.
  The absolute value of a \<open>timedelta\<close> is in range whenever the value is.
\<close>

fun closest_loop :: "timedelta \<Rightarrow> timedelta \<Rightarrow> sub list \<Rightarrow> sub option \<times> timedelta
    \<Rightarrow> error + sub option" where
  "closest_loop start_time_td tolerance [] (closest_sub, min_time_diff) = Inr closest_sub"
| "closest_loop start_time_td tolerance (s # subs) (closest_sub, min_time_diff) =
     (case to_timedelta (sub_start s) of
        Inl e \<Rightarrow> Inl e
      | Inr sub_start_time_td \<Rightarrow>
          (case timedelta (sub_start_time_td - start_time_td) of
             Inl e \<Rightarrow> Inl e
           | Inr d \<Rightarrow>
               (let time_diff = \<bar>d\<bar>
                in if time_diff \<le> tolerance \<and> time_diff < min_time_diff
                   then closest_loop start_time_td tolerance subs (Some s, time_diff)
                   else closest_loop start_time_td tolerance subs (closest_sub, min_time_diff))))"

definition find_closest_sub :: "srt_time \<Rightarrow> sub list \<Rightarrow> timedelta \<Rightarrow> error + sub option" where
  "find_closest_sub start_time subs tolerance =
     (case to_timedelta start_time of
        Inl e \<Rightarrow> Inl e
      | Inr start_time_td \<Rightarrow> closest_loop start_time_td tolerance subs (None, timedelta_max))"

section \<open>The environment of a search\<close>

text \<open>
  What the program reads and writes is outside \<open>app.py\<close>; the model takes it as data.
  \<^item> \<open>os_walk E directory\<close> is the sequence of triples \<open>(root, dirs, files)\<close> that
    \<open>os.walk(directory)\<close> yields.
  \<^item> \<open>content E path\<close> is what is found at \<open>path\<close>: nothing, a subtitle file that
    \<open>pysrt.open\<close> loads as a sequence of records, or something that \<open>pysrt.open\<close>
    fails on.
  \<^item> \<open>send_ok E k\<close> says whether the \<open>k\<close>-th call of \<open>conn.sendall\<close> on the connection
    returns; otherwise it raises.
\<close>

datatype srt_file = Srt "sub list" | Unreadable

record env =
  os_walk :: "string \<Rightarrow> (string \<times> string list \<times> string list) list"
  content :: "string \<Rightarrow> srt_file option"
  send_ok :: "nat \<Rightarrow> bool"

definition path_exists :: "env \<Rightarrow> string \<Rightarrow> bool" where
  "path_exists E p = (content E p \<noteq> None)"

definition pysrt_open :: "env \<Rightarrow> string \<Rightarrow> error + sub list" where
  "pysrt_open E p = (case content E p of
                       None \<Rightarrow> Inl FileError
                     | Some Unreadable \<Rightarrow> Inl FileError
                     | Some (Srt subs) \<Rightarrow> Inr subs)"

text \<open>
  The connection and the standard output: the payloads that \<open>sendall\<close> has delivered (oldest
  first), the number of \<open>sendall\<close> calls made, the lines printed, and whether the connection
  has been closed.
\<close>

datatype log_line =
    Error_processing_file string error
  | New_connection string
  | Search string string
  | Session_error error
  | Disconnected string

record world =
  sent :: "bytes list"
  attempts :: nat
  printed :: "log_line list"
  closed :: bool

definition sendall :: "env \<Rightarrow> bytes \<Rightarrow> world \<Rightarrow> (error + unit) \<times> world" where
  "sendall E data w =
     (if send_ok E (attempts w)
      then (Inr (), w\<lparr>sent := sent w @ [data], attempts := Suc (attempts w)\<rparr>)
      else (Inl SendError, w\<lparr>attempts := Suc (attempts w)\<rparr>))"

definition print :: "log_line \<Rightarrow> world \<Rightarrow> world" where
  "print l w = w\<lparr>printed := printed w @ [l]\<rparr>"

section \<open>find_translation_in_other_lang\<close>

definition other_lang_file_path :: "string \<Rightarrow> string \<Rightarrow> string \<Rightarrow> string" where
  "other_lang_file_path file_path from_lang_suffix to_lang_suffix =
     path_join (dirname file_path)
       (replace (''_'' @ from_lang_suffix) (''_'' @ to_lang_suffix) (basename file_path))"

text \<open>
  The four returned values are all \<open>None\<close> or all present, hence an optional tuple. A
  \<open>SubRipItem\<close> is always truthy, so \<open>if closest_sub\<close> tests whether a record was found.
\<close>

definition find_translation_in_other_lang ::
    "env \<Rightarrow> string \<Rightarrow> srt_time \<Rightarrow> string \<Rightarrow> string \<Rightarrow> string \<Rightarrow> timedelta
     \<Rightarrow> error + (string \<times> srt_time \<times> srt_time \<times> string) option" where
  "find_translation_in_other_lang E directory start_time file_path from_lang_suffix
       to_lang_suffix tolerance =
     (let path = other_lang_file_path file_path from_lang_suffix to_lang_suffix
      in if path_exists E path
         then (case pysrt_open E path of
                 Inl e \<Rightarrow> Inl e
               | Inr subs \<Rightarrow>
                   (case find_closest_sub start_time subs tolerance of
                      Inl e \<Rightarrow> Inl e
                    | Inr None \<Rightarrow> Inr None
                    | Inr (Some closest_sub) \<Rightarrow>
                        Inr (Some (strip (sub_text closest_sub), sub_start closest_sub,
                                   sub_end closest_sub, path))))
         else Inr None)"

section \<open>format_single_result\<close>

text \<open>\<open>str\<close> of a \<open>SubRipTime\<close>: the pattern \<open>%02d:%02d:%02d,%03d\<close>, a negative time as zero.\<close>

fun dec :: "nat \<Rightarrow> string" where
  "dec n = (if n < 10 then [char_of (48 + n)] else dec (n div 10) @ [char_of (48 + n mod 10)])"

definition zfill :: "nat \<Rightarrow> string \<Rightarrow> string" where
  "zfill k s = replicate (k - length s) CHR ''0'' @ s"

definition str_time :: "srt_time \<Rightarrow> string" where
  "str_time t0 =
     (let t = (if t0 < 0 then 0 else t0)
      in zfill 2 (dec (nat (hours t))) @ '':'' @ zfill 2 (dec (nat (minutes t))) @ '':''
         @ zfill 2 (dec (nat (seconds t))) @ '','' @ zfill 3 (dec (nat (milliseconds t))))"

record entry =
  e_language :: string
  e_file :: string
  e_start_time :: string
  e_end_time :: string
  e_text :: string

record result =
  original :: entry
  translation :: "entry option"

definition heading :: "entry \<Rightarrow> string" where
  "heading x = e_language x @ '' ('' @ e_file x @ '') '' @ e_start_time x @ '' -> '' @ e_end_time x"

definition no_translation_line :: string where
  "no_translation_line = ''No corresponding translation found.\<newline>''"

definition format_single_result :: "result \<Rightarrow> string" where
  "format_single_result r =
     str_join ''\<newline>''
       ([heading (original r), e_text (original r) @ ''\<newline>'']
        @ (case translation r of
             Some t \<Rightarrow> [heading t, e_text t @ ''\<newline>'']
           | None \<Rightarrow> [no_translation_line])
        @ [replicate 80 CHR ''-''])"

section \<open>stream_subtitle_search\<close>

definition SEARCH_LIMIT :: nat where
  "SEARCH_LIMIT = 12"

definition is_russian :: "string \<Rightarrow> bool" where
  "is_russian s = list_ex (\<lambda>c. 127 < (of_char c :: nat)) s"

definition matches :: "string \<Rightarrow> sub \<Rightarrow> bool" where
  "matches search_string s = str_in (lower search_string) (lower (sub_text s))"

text \<open>The text of a match (lines 124 to 128) and of its translation (lines 154 to 159).\<close>

definition normalize_text :: "string \<Rightarrow> string" where
  "normalize_text t = replace ''</i>'' [] (replace ''<i>'' [] (re_sub_ws (strip t)))"

definition normalize_translated :: "string \<Rightarrow> string" where
  "normalize_translated t = replace ''</i>'' [] (replace ''<i>'' [] (strip (re_sub_ws t)))"

text \<open>
  The local variables of one call, and how a piece of the function ends: it runs to its
  end, it raises, or it executes \<open>return True\<close>.
\<close>

record search_state =
  found_matches :: bool
  count :: nat
  io :: world

datatype outcome =
    Normal (final: search_state)
  | Raised error (final: search_state)
  | Returned (final: search_state)

datatype walk_outcome = Walked (state_of: search_state) | Limit_reached (state_of: search_state)

definition original_entry :: "string \<Rightarrow> string \<Rightarrow> sub \<Rightarrow> entry" where
  "original_entry lang_suffix file_path s =
     \<lparr>e_language = upper lang_suffix, e_file = file_path, e_start_time = str_time (sub_start s),
      e_end_time = str_time (sub_end s), e_text = normalize_text (sub_text s)\<rparr>"

definition translation_entry ::
    "string \<Rightarrow> (string \<times> srt_time \<times> srt_time \<times> string) option \<Rightarrow> entry option" where
  "translation_entry other_lang_suffix tr =
     (case tr of
        None \<Rightarrow> None
      | Some (translated_text, translated_start_time, translated_end_time, translated_file_path) \<Rightarrow>
          if translated_text \<noteq> []
          then Some \<lparr>e_language = upper other_lang_suffix, e_file = translated_file_path,
                     e_start_time = str_time translated_start_time,
                     e_end_time = str_time translated_end_time,
                     e_text = normalize_translated translated_text\<rparr>
          else None)"

text \<open>The body of \<open>for sub in subs\<close> for a record that matches (lines 121 to 174).\<close>

definition on_match :: "env \<Rightarrow> string \<Rightarrow> string \<Rightarrow> string \<Rightarrow> string \<Rightarrow> sub \<Rightarrow> search_state
    \<Rightarrow> outcome" where
  "on_match E directory lang_suffix other_lang_suffix file_path s st =
     (let st1 = st\<lparr>found_matches := True, count := count st + 1\<rparr>
      in case find_translation_in_other_lang E directory (sub_start s) file_path lang_suffix
                other_lang_suffix 1000000 of
           Inl e \<Rightarrow> Raised e st1
         | Inr tr \<Rightarrow>
             (let res = \<lparr>original = original_entry lang_suffix file_path s,
                         translation = translation_entry other_lang_suffix tr\<rparr>;
                  (r, conn) = sendall E (encode (format_single_result res)) (io st1);
                  st2 = st1\<lparr>io := conn\<rparr>
              in case r of
                   Inl e \<Rightarrow> Raised e st2
                 | Inr u \<Rightarrow> if SEARCH_LIMIT \<le> count st2 then Returned st2 else Normal st2))"

fun scan_subs :: "env \<Rightarrow> string \<Rightarrow> string \<Rightarrow> string \<Rightarrow> string \<Rightarrow> string \<Rightarrow> sub list
    \<Rightarrow> search_state \<Rightarrow> outcome" where
  "scan_subs E directory search_string lang_suffix other_lang_suffix file_path [] st = Normal st"
| "scan_subs E directory search_string lang_suffix other_lang_suffix file_path (s # subs) st =
     (if matches search_string s
      then (case on_match E directory lang_suffix other_lang_suffix file_path s st of
              Normal st' \<Rightarrow>
                scan_subs E directory search_string lang_suffix other_lang_suffix file_path subs st'
            | Raised e st' \<Rightarrow> Raised e st'
            | Returned st' \<Rightarrow> Returned st')
      else scan_subs E directory search_string lang_suffix other_lang_suffix file_path subs st)"

definition log_file_error :: "string \<Rightarrow> error \<Rightarrow> search_state \<Rightarrow> search_state" where
  "log_file_error file_path e st = st\<lparr>io := print (Error_processing_file file_path e) (io st)\<rparr>"

text \<open>\<open>for file in files\<close>, with the \<open>try\<close> block around the work on one file.\<close>

fun scan_files :: "env \<Rightarrow> string \<Rightarrow> string \<Rightarrow> string \<Rightarrow> string \<Rightarrow> string \<Rightarrow> string list
    \<Rightarrow> search_state \<Rightarrow> walk_outcome" where
  "scan_files E directory search_string lang_suffix other_lang_suffix root [] st = Walked st"
| "scan_files E directory search_string lang_suffix other_lang_suffix root (file # files) st =
     (if endswith file (''_'' @ lang_suffix @ ''.srt'')
      then (let file_path = path_join root file
            in case pysrt_open E file_path of
                 Inl e \<Rightarrow>
                   scan_files E directory search_string lang_suffix other_lang_suffix root files
                     (log_file_error file_path e st)
               | Inr subs \<Rightarrow>
                   (case scan_subs E directory search_string lang_suffix other_lang_suffix
                           file_path subs st of
                      Normal st' \<Rightarrow>
                        scan_files E directory search_string lang_suffix other_lang_suffix root
                          files st'
                    | Raised e st' \<Rightarrow>
                        scan_files E directory search_string lang_suffix other_lang_suffix root
                          files (log_file_error file_path e st')
                    | Returned st' \<Rightarrow> Limit_reached st'))
      else scan_files E directory search_string lang_suffix other_lang_suffix root files st)"

text \<open>\<open>for root, dirs, files in os.walk(directory)\<close>.\<close>

fun scan_walk :: "env \<Rightarrow> string \<Rightarrow> string \<Rightarrow> string \<Rightarrow> string
    \<Rightarrow> (string \<times> string list \<times> string list) list \<Rightarrow> search_state \<Rightarrow> walk_outcome" where
  "scan_walk E directory search_string lang_suffix other_lang_suffix [] st = Walked st"
| "scan_walk E directory search_string lang_suffix other_lang_suffix ((root, dirs, files) # rest) st =
     (case scan_files E directory search_string lang_suffix other_lang_suffix root files st of
        Walked st' \<Rightarrow> scan_walk E directory search_string lang_suffix other_lang_suffix rest st'
      | Limit_reached st' \<Rightarrow> Limit_reached st')"

definition lang_suffix_of :: "string \<Rightarrow> string" where
  "lang_suffix_of search_string = (if is_russian search_string then ''ru'' else ''en'')"

definition other_lang_suffix_of :: "string \<Rightarrow> string" where
  "other_lang_suffix_of search_string = (if is_russian search_string then ''en'' else ''ru'')"

definition search_walk :: "env \<Rightarrow> string \<Rightarrow> string \<Rightarrow> world \<Rightarrow> walk_outcome" where
  "search_walk E directory search_string conn =
     scan_walk E directory search_string (lang_suffix_of search_string)
       (other_lang_suffix_of search_string) (os_walk E directory)
       \<lparr>found_matches = False, count = 0, io = conn\<rparr>"

definition stream_subtitle_search :: "env \<Rightarrow> string \<Rightarrow> string \<Rightarrow> world \<Rightarrow> bool \<times> world" where
  "stream_subtitle_search E directory search_string conn =
     (case search_walk E directory search_string conn of
        Walked st \<Rightarrow> (found_matches st, io st)
      | Limit_reached st \<Rightarrow> (True, io st))"

section \<open>handle_client\<close>

definition no_results_msg :: string where
  "no_results_msg = ''No matching subtitles found.''"

definition end_marker :: bytes where
  "end_marker = ''\<newline><END>\<newline>''"

text \<open>One turn of the loop from line 189 on, for a query that is not blank.\<close>

definition answer_query :: "env \<Rightarrow> string \<Rightarrow> string \<Rightarrow> string \<Rightarrow> world
    \<Rightarrow> (error + unit) \<times> world" where
  "answer_query E addr subtitles_directory search_str conn =
     (let (found, conn1) = stream_subtitle_search E subtitles_directory search_str
                              (print (Search addr search_str) conn);
          (r, conn2) = (if \<not> found then sendall E (encode no_results_msg) conn1
                        else (Inr (), conn1))
      in case r of
           Inl e \<Rightarrow> (Inl e, conn2)
         | Inr u \<Rightarrow> sendall E end_marker conn2)"

text \<open>
  The \<open>while True\<close> loop. Its input is the sequence of what the successive calls of
  \<open>conn.recv(1024).decode()\<close> give, each a string or an exception; when the sequence is
  used up the peer has closed the connection and \<open>recv\<close> returns the empty string.
\<close>

fun session_loop :: "env \<Rightarrow> string \<Rightarrow> string \<Rightarrow> (error + string) list \<Rightarrow> world
    \<Rightarrow> (error + unit) \<times> world" where
  "session_loop E addr subtitles_directory [] conn = (Inr (), conn)"
| "session_loop E addr subtitles_directory (Inl e # incoming) conn = (Inl e, conn)"
| "session_loop E addr subtitles_directory (Inr received # incoming) conn =
     (let search_str = strip received
      in if search_str = [] then (Inr (), conn)
         else (case answer_query E addr subtitles_directory search_str conn of
                 (Inl e, conn') \<Rightarrow> (Inl e, conn')
               | (Inr u, conn') \<Rightarrow> session_loop E addr subtitles_directory incoming conn'))"

definition handle_client :: "env \<Rightarrow> string \<Rightarrow> string \<Rightarrow> (error + string) list \<Rightarrow> world
    \<Rightarrow> world" where
  "handle_client E addr subtitles_directory incoming conn =
     (let (r, conn1) = session_loop E addr subtitles_directory incoming
                          (print (New_connection addr) conn);
          conn2 = (case r of Inl e \<Rightarrow> print (Session_error e) conn1 | Inr u \<Rightarrow> conn1)
      in print (Disconnected addr) (conn2\<lparr>closed := True\<rparr>))"

section \<open>Notions used in the statements\<close>




text \<open>
  Shorthands for the effects of one match: the two local variables set on a match, a payload
  delivered by \<open>sendall\<close>, a \<open>sendall\<close> that raised, and the frame sent for a record.
\<close>

definition matched :: "search_state \<Rightarrow> search_state" where
  "matched st = st\<lparr>found_matches := True, count := count st + 1\<rparr>"

definition delivered :: "bytes \<Rightarrow> world \<Rightarrow> world" where
  "delivered data w = w\<lparr>sent := sent w @ [data], attempts := Suc (attempts w)\<rparr>"

definition refused :: "world \<Rightarrow> world" where
  "refused w = w\<lparr>attempts := Suc (attempts w)\<rparr>"

definition frame_of :: "string \<Rightarrow> string \<Rightarrow> string \<Rightarrow> sub
    \<Rightarrow> (string \<times> srt_time \<times> srt_time \<times> string) option \<Rightarrow> bytes" where
  "frame_of lang_suffix other_lang_suffix file_path s tr =
     encode (format_single_result
       \<lparr>original = original_entry lang_suffix file_path s,
        translation = translation_entry other_lang_suffix tr\<rparr>)"

text \<open>
  Two states of a search that differ at most in what has been printed, and two outcomes that
  end the same way in such states.
\<close>

definition same_but_log :: "search_state \<Rightarrow> search_state \<Rightarrow> bool" where
  "same_but_log st st' =
     (found_matches st = found_matches st' \<and> count st = count st' \<and>
      sent (io st) = sent (io st') \<and> attempts (io st) = attempts (io st') \<and>
      closed (io st) = closed (io st'))"

fun same_outcome :: "outcome \<Rightarrow> outcome \<Rightarrow> bool" where
  "same_outcome (Normal a) (Normal b) = same_but_log a b"
| "same_outcome (Raised e a) (Raised e' b) = (e = e' \<and> same_but_log a b)"
| "same_outcome (Returned a) (Returned b) = same_but_log a b"
| "same_outcome x y = False"

fun same_walk_outcome :: "walk_outcome \<Rightarrow> walk_outcome \<Rightarrow> bool" where
  "same_walk_outcome (Walked a) (Walked b) = same_but_log a b"
| "same_walk_outcome (Limit_reached a) (Limit_reached b) = same_but_log a b"
| "same_walk_outcome x y = False"

text \<open>
  The bound on the frames sent by one search that started with \<open>base\<close> payloads on the
  connection: while the search goes on, fewer than \<open>SEARCH_LIMIT\<close> frames and at most as many
  as the counter; once it has returned at the limit, at most \<open>SEARCH_LIMIT\<close>.
\<close>

definition frames_ok :: "nat \<Rightarrow> search_state \<Rightarrow> bool" where
  "frames_ok base st =
     (length (sent (io st)) \<le> base + count st \<and> length (sent (io st)) < base + SEARCH_LIMIT)"

definition frames_capped :: "nat \<Rightarrow> search_state \<Rightarrow> bool" where
  "frames_capped base st = (length (sent (io st)) \<le> base + SEARCH_LIMIT)"

fun outcome_frames :: "nat \<Rightarrow> outcome \<Rightarrow> bool" where
  "outcome_frames base (Normal st) = frames_ok base st"
| "outcome_frames base (Raised e st) = frames_ok base st"
| "outcome_frames base (Returned st) = frames_capped base st"

fun walk_frames :: "nat \<Rightarrow> walk_outcome \<Rightarrow> bool" where
  "walk_frames base (Walked st) = frames_ok base st"
| "walk_frames base (Limit_reached st) = frames_capped base st"

text \<open>Every \<open>sendall\<close> from the \<open>k\<close>-th call on raises.\<close>

definition broken_from :: "env \<Rightarrow> nat \<Rightarrow> bool" where
  "broken_from E k = (\<forall>n \<ge> k. \<not> send_ok E n)"

text \<open>
  No record of any file that the walk scans for the query contains the query: the files whose
  name ends with the primary suffix and that \<open>pysrt.open\<close> loads.
\<close>

definition no_match :: "env \<Rightarrow> string \<Rightarrow> string \<Rightarrow> bool" where
  "no_match E directory q =
     (\<forall>(root, dirs, files) \<in> set (os_walk E directory). \<forall>file \<in> set files.
        endswith file (''_'' @ lang_suffix_of q @ ''.srt'') \<longrightarrow>
        (case pysrt_open E (path_join root file) of
           Inl e \<Rightarrow> True
         | Inr subs \<Rightarrow> \<forall>s \<in> set subs. \<not> matches q s))"

text \<open>
  A text in which no two neighbouring characters are both a space or a newline, and a text
  without whitespace at either end.
\<close>

fun single_spaced :: "string \<Rightarrow> bool" where
  "single_spaced [] = True"
| "single_spaced [x] = True"
| "single_spaced (x # y # ys) = (\<not> (sp_nl x \<and> sp_nl y) \<and> single_spaced (y # ys))"

definition trimmed :: "string \<Rightarrow> bool" where
  "trimmed t = (t = [] \<or> (\<not> isspace (hd t) \<and> \<not> isspace (last t)))"

subsection \<open>Example data\<close>

text \<open>
  A track of four records; a directory \<open>d\<close> with English files, of which \<open>a_en.srt\<close> has a
  Russian sibling (whose second record is blank), \<open>bad_en.srt\<close> cannot be loaded,
  \<open>b_en.srt\<close> has a sibling that cannot be loaded and \<open>c_en.srt\<close> has none; the same
  tree on a connection that refuses every write; and a tree with enough matches to reach
  the limit.
\<close>

definition sub_at :: "srt_time \<Rightarrow> string \<Rightarrow> sub" where
  "sub_at t txt = \<lparr>sub_text = txt, sub_start = t, sub_end = t + 900\<rparr>"


definition ex_conn :: world where
  "ex_conn = \<lparr>sent = [], attempts = 0, printed = [], closed = False\<rparr>"

definition ex_state :: search_state where
  "ex_state = \<lparr>found_matches = False, count = 0, io = ex_conn\<rparr>"

definition ex_content :: "string \<Rightarrow> srt_file option" where
  "ex_content p =
     (if p = ''d/a_en.srt'' then Some (Srt [sub_at 1000 ''Hello world'', sub_at 5000 ''Goodbye''])
      else if p = ''d/a_ru.srt'' then Some (Srt [sub_at 1200 ''Privet mir'', sub_at 5100 ''   ''])
      else if p = ''d/bad_en.srt'' then Some Unreadable
      else if p = ''d/b_en.srt'' then Some (Srt [sub_at 2000 ''hello there'', sub_at 4000 ''Hello again''])
      else if p = ''d/b_ru.srt'' then Some Unreadable
      else if p = ''d/c_en.srt'' then Some (Srt [sub_at 100 ''well hello''])
      else if p = ''d/x/e_en.srt'' then Some (Srt [sub_at 100 ''HELLO''])
      else None)"

definition ex_env :: env where
  "ex_env = \<lparr>os_walk = (\<lambda>d. [(''d'', [''x''], [''a_en.srt'', ''a_ru.srt'', ''bad_en.srt'', ''b_en.srt'',
                                              ''b_ru.srt'', ''notes.txt'', ''c_en.srt'']),
                                (''d/x'', [], [''e_en.srt''])]),
             content = ex_content,
             send_ok = (\<lambda>k. True)\<rparr>"

definition broken_env :: env where
  "broken_env = ex_env\<lparr>send_ok := (\<lambda>k. False)\<rparr>"

definition cap_content :: "string \<Rightarrow> srt_file option" where
  "cap_content p =
     (if p = ''d/a_en.srt'' then Some (Srt (replicate 11 (sub_at 1000 ''hello'')))
      else if p = ''d/b_en.srt'' then Some (Srt [sub_at 1000 ''hello''])
      else if p = ''d/b_ru.srt'' then Some Unreadable
      else if p = ''d/c_en.srt'' then Some (Srt [sub_at 1000 ''hello'', sub_at 2000 ''hello''])
      else None)"

definition cap_env :: env where
  "cap_env = \<lparr>os_walk = (\<lambda>d. [(''d'', [''x''], [''a_en.srt'', ''b_en.srt'', ''c_en.srt'', ''e_en.srt'']),
                                 (''d/x'', [], [''f_en.srt''])]),
              content = cap_content,
              send_ok = (\<lambda>k. True)\<rparr>"

text \<open>The state after a match whose frame has been delivered.\<close>

definition match_delivered :: "bytes \<Rightarrow> search_state \<Rightarrow> search_state" where
  "match_delivered data st = (matched st)\<lparr>io := delivered data (io st)\<rparr>"

text \<open>
  The state of the search in \<open>cap_env\<close> after the first two files: eleven frames sent,
  a twelfth match whose translation file could not be loaded.
\<close>

definition cap_state :: search_state where
  "cap_state =
     log_file_error ''d/b_en.srt'' FileError
       (matched ((match_delivered (frame_of ''en'' ''ru'' ''d/a_en.srt'' (sub_at 1000 ''hello'') None) ^^ 11)
                   ex_state))"

section \<open>Strings and paths\<close>

lemma startswith_prefix: "startswith s p \<longleftrightarrow> prefix p s"
proof
  assume "startswith s p"
  then have "s = p @ drop (length p) s"
    by (metis append_take_drop_id startswith_def)
  then show "prefix p s" by (metis prefixI)
next
  assume "prefix p s"
  then show "startswith s p" by (auto simp: startswith_def prefix_def)
qed

lemma endswith_suffix: "endswith s x \<longleftrightarrow> suffix x s"
proof
  assume "endswith s x"
  then have "s = take (length s - length x) s @ x"
    by (metis append_take_drop_id endswith_def)
  then show "suffix x s" by (metis suffixI)
next
  assume "suffix x s"
  then obtain a where "s = a @ x" by (auto simp: suffix_def)
  then show "endswith s x" by (simp add: endswith_def)
qed

lemma basename_path_join:
  assumes "CHR ''/'' \<notin> set file"
  shows "basename (path_join root file) = file"
proof -
  have tw: "takeWhile (\<lambda>c. c \<noteq> CHR ''/'') (rev file) = rev file"
    using assms by auto
  have ns: "\<not> startswith file ''/''"
    using assms by (cases "file") (auto simp: startswith_def)
  show ?thesis
  proof (cases "root = []")
    case True
    then show ?thesis using ns by (simp add: path_join_def basename_def tw)
  next
    case False
    show ?thesis
    proof (cases "endswith root ''/''")
      case True
      then obtain a where a: "root = a @ ''/''"
        by (auto simp: endswith_suffix suffix_def)
      have t: "takeWhile (\<lambda>c. c \<noteq> CHR ''/'') (rev file @ CHR ''/'' # rev a) = rev file"
        using assms by (auto simp: takeWhile_tail)
      show ?thesis using ns True by (simp add: path_join_def basename_def) (simp add: a t)
    next
      case False
      have t: "takeWhile (\<lambda>c. c \<noteq> CHR ''/'') (rev file @ CHR ''/'' # rev root) = rev file"
        using assms by (auto simp: takeWhile_tail)
      show ?thesis using ns False \<open>root \<noteq> []\<close> by (simp add: path_join_def basename_def t)
    qed
  qed
qed

lemma str_in_sublist: "str_in x s \<longleftrightarrow> sublist x s"
  by (induction s) (auto simp: startswith_prefix sublist_Cons_right)





lemma replace_absent:
  assumes "old \<noteq> []" "\<not> str_in old s"
  shows "replace old new s = s"
  using assms by (induction s) auto

lemma set_replace_empty: "set (replace old [] s) \<subseteq> set s"
proof (induction old "[] :: string" s rule: replace.induct)
  case (1 old)
  then show ?case by simp
next
  case (2 old c cs)
  show ?case
  proof (cases "old = []")
    case True
    with 2 show ?thesis by auto
  next
    case False
    show ?thesis
    proof (cases "startswith (c # cs) old")
      case True
      have "set (replace old [] (drop (length old) (c # cs))) \<subseteq> set (drop (length old) (c # cs))"
        using 2(2)[OF False True] .
      also have "\<dots> \<subseteq> set (c # cs)" by (rule set_drop_subset)
      finally show ?thesis using False True by simp
    next
      case f: False
      with 2(3)[OF False f] False show ?thesis by auto
    qed
  qed
qed

lemma re_sub_ws_no_newline: "CHR 0x0A \<notin> set (re_sub_ws s)"
  by (induction s rule: re_sub_ws.induct) (auto simp: sp_nl_def)

lemma re_sub_ws_Cons_other: "\<not> sp_nl c \<Longrightarrow> re_sub_ws (c # cs) = c # re_sub_ws cs"
  by simp

lemma hd_re_sub_ws: "s \<noteq> [] \<Longrightarrow> \<not> sp_nl (hd s) \<Longrightarrow> re_sub_ws s \<noteq> [] \<and> hd (re_sub_ws s) = hd s"
  by (cases s) auto

lemma re_sub_ws_single_spaced: "single_spaced (re_sub_ws s)"
proof (induction s rule: re_sub_ws.induct)
  case 1
  then show ?case by simp
next
  case (2 c cs)
  show ?case
  proof (cases "sp_nl c")
    case True
    let ?r = "dropWhile sp_nl cs"
    have ih: "single_spaced (re_sub_ws ?r)" using 2(1)[OF True] .
    have step: "re_sub_ws (c # cs) = CHR '' '' # re_sub_ws ?r" using True by simp
    show ?thesis
    proof (cases ?r)
      case Nil
      show ?thesis unfolding step Nil by simp
    next
      case (Cons d ds)
      then have d: "\<not> sp_nl d" by (metis hd_dropWhile list.distinct(1) list.sel(1))
      have "single_spaced (re_sub_ws (d # ds))" using ih unfolding Cons .
      then show ?thesis unfolding step Cons using d by simp
    qed
  next
    case False
    have ih: "single_spaced (re_sub_ws cs)" using 2(2)[OF False] .
    show ?thesis using False ih by (cases "re_sub_ws cs") auto
  qed
qed

lemma last_re_sub_ws:
  "s \<noteq> [] \<Longrightarrow> \<not> sp_nl (last s) \<Longrightarrow> re_sub_ws s \<noteq> [] \<and> last (re_sub_ws s) = last s"
proof (induction s rule: re_sub_ws.induct)
  case 1
  then show ?case by simp
next
  case (2 c cs)
  show ?case
  proof (cases "sp_nl c")
    case True
    with 2(4) have ne: "cs \<noteq> []" by auto
    then have l: "last (c # cs) = last cs" by simp
    have "\<exists>x \<in> set cs. \<not> sp_nl x" using 2(4) ne l by (metis last_in_set)
    then have dne: "dropWhile sp_nl cs \<noteq> []" by simp
    have "cs = takeWhile sp_nl cs @ dropWhile sp_nl cs" by simp
    then have dl: "last (dropWhile sp_nl cs) = last cs" using dne by (metis last_appendR)
    from 2(1)[OF True dne] 2(4) l dl
    have "re_sub_ws (dropWhile sp_nl cs) \<noteq> [] \<and> last (re_sub_ws (dropWhile sp_nl cs)) = last cs"
      by simp
    then show ?thesis using True l by simp
  next
    case False
    show ?thesis
    proof (cases "cs = []")
      case True
      then show ?thesis using False by simp
    next
      case ne: False
      with 2(2)[OF False ne] 2(4) False show ?thesis by simp
    qed
  qed
qed

lemma sp_nl_isspace: "sp_nl c \<Longrightarrow> isspace c"
  by (auto simp: sp_nl_def isspace_def)

lemma strip_trimmed: "trimmed (strip s)"
proof (cases "strip s = []")
  case True
  then show ?thesis by (simp add: trimmed_def)
next
  case False
  let ?a = "dropWhile isspace s"
  let ?b = "dropWhile isspace (rev ?a)"
  have b: "?b \<noteq> []" using False by (simp add: strip_def)
  then have l: "\<not> isspace (hd ?b)" by (rule hd_dropWhile)
  have a: "?a \<noteq> []" using b by (cases "?a") simp_all
  then have h: "\<not> isspace (hd ?a)" by (rule hd_dropWhile)
  have "rev ?a = takeWhile isspace (rev ?a) @ ?b" by simp
  then have "last (rev ?a) = last ?b" using b by (metis last_appendR)
  then have "last ?b = hd ?a" using a by (simp add: last_rev)
  then have "hd (strip s) = hd ?a" using b by (simp add: strip_def hd_rev)
  moreover have "last (strip s) = hd ?b" using b by (simp add: strip_def last_rev)
  ultimately show ?thesis using h l by (simp add: trimmed_def)
qed

lemma re_sub_ws_trimmed: "trimmed t \<Longrightarrow> trimmed (re_sub_ws t)"
proof (cases "t = []")
  case True
  then show ?thesis by (simp add: trimmed_def)
next
  case False
  assume "trimmed t"
  with False have h: "\<not> sp_nl (hd t)" and l: "\<not> sp_nl (last t)"
    and h': "\<not> isspace (hd t)" and l': "\<not> isspace (last t)"
    using sp_nl_isspace by (auto simp: trimmed_def)
  from hd_re_sub_ws[OF False h] last_re_sub_ws[OF False l] h' l'
  show ?thesis by (simp add: trimmed_def)
qed

lemma startswith_re_sub_ws:
  "\<forall>c \<in> set x. \<not> sp_nl c \<Longrightarrow> startswith (re_sub_ws s) x \<Longrightarrow> startswith s x"
proof (induction x arbitrary: s)
  case Nil
  then show ?case by (simp add: startswith_def)
next
  case (Cons d x)
  show ?case
  proof (cases s)
    case Nil
    with Cons.prems show ?thesis by (simp add: startswith_def)
  next
    case (Cons c cs)
    show ?thesis
    proof (cases "sp_nl c")
      case True
      with Cons.prems Cons have "d = CHR '' ''" by (simp add: startswith_def)
      with Cons.prems(1) show ?thesis by (simp add: sp_nl_def)
    next
      case False
      with Cons.prems(2) Cons have "c = d" and "startswith (re_sub_ws cs) x"
        by (simp_all add: startswith_def)
      moreover have "\<forall>c \<in> set x. \<not> sp_nl c" using Cons.prems(1) by simp
      ultimately have "startswith cs x" using Cons.IH by blast
      with \<open>c = d\<close> Cons show ?thesis by (simp add: startswith_def)
    qed
  qed
qed

lemma str_in_dropWhile: "str_in x (dropWhile P s) \<Longrightarrow> str_in x s"
proof -
  assume "str_in x (dropWhile P s)"
  then have "sublist x (dropWhile P s)" by (simp add: str_in_sublist)
  moreover have "sublist (dropWhile P s) s" by simp
  ultimately have "sublist x s" by (rule sublist_order.order.trans)
  then show ?thesis by (simp add: str_in_sublist)
qed

lemma str_in_re_sub_ws:
  assumes "x \<noteq> []" "\<forall>c \<in> set x. \<not> sp_nl c"
  shows "str_in x (re_sub_ws s) \<Longrightarrow> str_in x s"
proof (induction s rule: re_sub_ws.induct)
  case 1
  then show ?case by simp
next
  case (2 c cs)
  show ?case
  proof (cases "sp_nl c")
    case True
    have "\<not> startswith (CHR '' '' # re_sub_ws (dropWhile sp_nl cs)) x"
      using assms by (cases x) (auto simp: startswith_def sp_nl_def)
    with 2(3) True have "str_in x (re_sub_ws (dropWhile sp_nl cs))" by simp
    then have "str_in x (dropWhile sp_nl cs)" using 2(1)[OF True] by blast
    then have "str_in x cs" by (rule str_in_dropWhile)
    then show ?thesis by simp
  next
    case False
    from 2(3) False have "startswith (c # re_sub_ws cs) x \<or> str_in x (re_sub_ws cs)" by simp
    then show ?thesis
    proof
      assume "startswith (c # re_sub_ws cs) x"
      then have "startswith (re_sub_ws (c # cs)) x" using False by simp
      then have "startswith (c # cs) x" using assms(2) startswith_re_sub_ws by blast
      then show ?thesis by simp
    next
      assume "str_in x (re_sub_ws cs)"
      then show ?thesis using 2(2)[OF False] by simp
    qed
  qed
qed

lemma str_in_strip: "str_in x (strip s) \<Longrightarrow> str_in x s"
proof -
  assume a: "str_in x (strip s)"
  let ?a = "dropWhile isspace s"
  have "sublist (dropWhile isspace (rev ?a)) (rev ?a)" by simp
  then have "sublist (strip s) ?a" unfolding strip_def by (simp only: sublist_rev_left rev_rev_ident)
  moreover have "sublist x (strip s)" using a by (simp add: str_in_sublist)
  ultimately have "sublist x ?a" using sublist_order.order.trans by blast
  then have "str_in x ?a" by (simp add: str_in_sublist)
  then show ?thesis by (rule str_in_dropWhile)
qed

section \<open>The time alignment matcher\<close>









section \<open>The cross-language resolver\<close>

lemma find_translation_missing:
  "content E (other_lang_file_path file_path from_lang_suffix to_lang_suffix) = None \<Longrightarrow>
   find_translation_in_other_lang E directory start_time file_path from_lang_suffix to_lang_suffix
     tolerance = Inr None"
  by (simp add: find_translation_in_other_lang_def path_exists_def)

lemma find_translation_unreadable:
  "content E (other_lang_file_path file_path from_lang_suffix to_lang_suffix) = Some Unreadable \<Longrightarrow>
   find_translation_in_other_lang E directory start_time file_path from_lang_suffix to_lang_suffix
     tolerance = Inl FileError"
  by (simp add: find_translation_in_other_lang_def path_exists_def pysrt_open_def)

lemma find_translation_loaded:
  "content E (other_lang_file_path file_path from_lang_suffix to_lang_suffix) = Some (Srt subs) \<Longrightarrow>
   find_translation_in_other_lang E directory start_time file_path from_lang_suffix to_lang_suffix
     tolerance =
     (case find_closest_sub start_time subs tolerance of
        Inl e \<Rightarrow> Inl e
      | Inr None \<Rightarrow> Inr None
      | Inr (Some closest_sub) \<Rightarrow>
          Inr (Some (strip (sub_text closest_sub), sub_start closest_sub, sub_end closest_sub,
                     other_lang_file_path file_path from_lang_suffix to_lang_suffix)))"
  by (simp add: find_translation_in_other_lang_def path_exists_def pysrt_open_def)

section \<open>The search loops\<close>

lemma on_match_lookup_raises:
  assumes "find_translation_in_other_lang E directory (sub_start s) file_path lang_suffix
             other_lang_suffix 1000000 = Inl e"
  shows "on_match E directory lang_suffix other_lang_suffix file_path s st = Raised e (matched st)"
  using assms by (simp add: on_match_def matched_def)

lemma on_match_delivered:
  assumes "find_translation_in_other_lang E directory (sub_start s) file_path lang_suffix
             other_lang_suffix 1000000 = Inr tr"
    and "send_ok E (attempts (io st))"
  shows "on_match E directory lang_suffix other_lang_suffix file_path s st =
     (if SEARCH_LIMIT \<le> count st + 1
      then Returned ((matched st)\<lparr>io := delivered (frame_of lang_suffix other_lang_suffix file_path s tr) (io st)\<rparr>)
      else Normal ((matched st)\<lparr>io := delivered (frame_of lang_suffix other_lang_suffix file_path s tr) (io st)\<rparr>))"
  using assms by (simp add: on_match_def matched_def sendall_def delivered_def frame_of_def)

lemma on_match_send_raises:
  assumes "find_translation_in_other_lang E directory (sub_start s) file_path lang_suffix
             other_lang_suffix 1000000 = Inr tr"
    and "\<not> send_ok E (attempts (io st))"
  shows "on_match E directory lang_suffix other_lang_suffix file_path s st =
     Raised SendError ((matched st)\<lparr>io := refused (io st)\<rparr>)"
  using assms by (simp add: on_match_def matched_def sendall_def refused_def)

lemma on_match_cases:
  obtains (lookup) e where "on_match E directory lang_suffix other_lang_suffix file_path s st = Raised e (matched st)"
  | (sent) data where "send_ok E (attempts (io st))" "SEARCH_LIMIT \<le> count st + 1"
      "on_match E directory lang_suffix other_lang_suffix file_path s st =
         Returned ((matched st)\<lparr>io := delivered data (io st)\<rparr>)"
  | (more) data where "send_ok E (attempts (io st))" "\<not> SEARCH_LIMIT \<le> count st + 1"
      "on_match E directory lang_suffix other_lang_suffix file_path s st =
         Normal ((matched st)\<lparr>io := delivered data (io st)\<rparr>)"
  | (refused) "\<not> send_ok E (attempts (io st))"
      "on_match E directory lang_suffix other_lang_suffix file_path s st =
         Raised SendError ((matched st)\<lparr>io := refused (io st)\<rparr>)"
proof (cases "find_translation_in_other_lang E directory (sub_start s) file_path lang_suffix
             other_lang_suffix 1000000")
  case (Inl e)
  then show ?thesis using lookup on_match_lookup_raises by blast
next
  case (Inr tr)
  show ?thesis
  proof (cases "send_ok E (attempts (io st))")
    case True
    show ?thesis
    proof (cases "SEARCH_LIMIT \<le> count st + 1")
      case t: True
      with on_match_delivered[OF Inr True] sent True show ?thesis by simp
    next
      case f: False
      with on_match_delivered[OF Inr True] more True show ?thesis by simp
    qed
  next
    case False
    with on_match_send_raises[OF Inr False] refused show ?thesis by simp
  qed
qed

lemma scan_subs_append:
  "scan_subs E directory search_string lang_suffix other_lang_suffix file_path (xs @ ys) st =
     (case scan_subs E directory search_string lang_suffix other_lang_suffix file_path xs st of
        Normal st' \<Rightarrow> scan_subs E directory search_string lang_suffix other_lang_suffix file_path ys st'
      | Raised e st' \<Rightarrow> Raised e st'
      | Returned st' \<Rightarrow> Returned st')"
  by (induction xs arbitrary: st) (auto split: outcome.splits)

lemma scan_files_append:
  "scan_files E directory search_string lang_suffix other_lang_suffix root (xs @ ys) st =
     (case scan_files E directory search_string lang_suffix other_lang_suffix root xs st of
        Walked st' \<Rightarrow> scan_files E directory search_string lang_suffix other_lang_suffix root ys st'
      | Limit_reached st' \<Rightarrow> Limit_reached st')"
  by (induction xs arbitrary: st) (auto simp: Let_def split: outcome.splits sum.splits walk_outcome.splits)

lemma scan_walk_append:
  "scan_walk E directory search_string lang_suffix other_lang_suffix (xs @ ys) st =
     (case scan_walk E directory search_string lang_suffix other_lang_suffix xs st of
        Walked st' \<Rightarrow> scan_walk E directory search_string lang_suffix other_lang_suffix ys st'
      | Limit_reached st' \<Rightarrow> Limit_reached st')"
  by (induction xs arbitrary: st) (auto split: walk_outcome.splits)

lemma scan_subs_no_match:
  "\<forall>x \<in> set xs. \<not> matches search_string x \<Longrightarrow>
   scan_subs E directory search_string lang_suffix other_lang_suffix file_path xs st = Normal st"
  by (induction xs) auto

lemma same_but_log_log_file_error [simp]:
  "same_but_log (log_file_error p e a) b = same_but_log a b"
  "same_but_log a (log_file_error p e b) = same_but_log a b"
  by (simp_all add: same_but_log_def log_file_error_def print_def)

lemma on_match_same:
  assumes "same_but_log a b"
  shows "same_outcome (on_match E directory lang_suffix other_lang_suffix file_path s a)
                      (on_match E directory lang_suffix other_lang_suffix file_path s b)"
  using assms
  by (auto simp: on_match_def sendall_def same_but_log_def Let_def split: sum.splits)

lemma scan_subs_same:
  assumes "same_but_log a b"
  shows "same_outcome (scan_subs E directory search_string lang_suffix other_lang_suffix file_path xs a)
                      (scan_subs E directory search_string lang_suffix other_lang_suffix file_path xs b)"
  using assms
proof (induction xs arbitrary: a b)
  case Nil
  then show ?case by simp
next
  case (Cons x xs)
  show ?case
  proof (cases "matches search_string x")
    case True
    from on_match_same[OF Cons.prems, of E directory lang_suffix other_lang_suffix file_path x]
    show ?thesis using True Cons.IH
      by (cases "on_match E directory lang_suffix other_lang_suffix file_path x a";
          cases "on_match E directory lang_suffix other_lang_suffix file_path x b") auto
  next
    case False
    then show ?thesis using Cons by simp
  qed
qed

lemma scan_files_same:
  assumes "same_but_log a b"
  shows "same_walk_outcome (scan_files E directory search_string lang_suffix other_lang_suffix root fs a)
                           (scan_files E directory search_string lang_suffix other_lang_suffix root fs b)"
  using assms
proof (induction fs arbitrary: a b)
  case Nil
  then show ?case by simp
next
  case (Cons f fs)
  show ?case
  proof (cases "endswith f (''_'' @ lang_suffix @ ''.srt'')")
    case False
    then show ?thesis using Cons by simp
  next
    case True
    show ?thesis
    proof (cases "pysrt_open E (path_join root f)")
      case (Inl e)
      then show ?thesis using True Cons by simp
    next
      case (Inr subs)
      from scan_subs_same[OF Cons.prems, of E directory search_string lang_suffix other_lang_suffix "path_join root f" subs]
      show ?thesis using True Inr Cons.IH
        by (cases "scan_subs E directory search_string lang_suffix other_lang_suffix (path_join root f) subs a";
            cases "scan_subs E directory search_string lang_suffix other_lang_suffix (path_join root f) subs b") auto
    qed
  qed
qed

lemma scan_walk_same:
  assumes "same_but_log a b"
  shows "same_walk_outcome (scan_walk E directory search_string lang_suffix other_lang_suffix ws a)
                           (scan_walk E directory search_string lang_suffix other_lang_suffix ws b)"
  using assms
proof (induction ws arbitrary: a b)
  case Nil
  then show ?case by simp
next
  case (Cons w ws)
  obtain root dirs fs where w: "w = (root, dirs, fs)" by (cases w) auto
  from scan_files_same[OF Cons.prems, of E directory search_string lang_suffix other_lang_suffix root fs]
  show ?case using Cons.IH unfolding w
    by (cases "scan_files E directory search_string lang_suffix other_lang_suffix root fs a";
        cases "scan_files E directory search_string lang_suffix other_lang_suffix root fs b") auto
qed

lemma same_walk_outcome_refl: "same_walk_outcome x x"
  by (cases x) (simp_all add: same_but_log_def)

lemma scan_files_bad_file:
  assumes "endswith file (''_'' @ lang_suffix @ ''.srt'')"
    and "pysrt_open E (path_join root file) = Inl e"
  shows "scan_files E directory search_string lang_suffix other_lang_suffix root (file # files) st =
         scan_files E directory search_string lang_suffix other_lang_suffix root files
           (log_file_error (path_join root file) e st)"
  using assms by simp

lemma scan_walk_skip_bad_file:
  assumes "endswith file (''_'' @ lang_suffix @ ''.srt'')"
    and "pysrt_open E (path_join root file) = Inl e"
  shows "same_walk_outcome
     (scan_walk E directory search_string lang_suffix other_lang_suffix
        (before @ (root, dirs, files1 @ file # files2) # after) st)
     (scan_walk E directory search_string lang_suffix other_lang_suffix
        (before @ (root, dirs, files1 @ files2) # after) st)"
proof (cases "scan_walk E directory search_string lang_suffix other_lang_suffix before st")
  case (Limit_reached st1)
  then show ?thesis by (simp add: scan_walk_append same_but_log_def)
next
  case (Walked st1)
  show ?thesis
  proof (cases "scan_files E directory search_string lang_suffix other_lang_suffix root files1 st1")
    case (Limit_reached st2)
    then show ?thesis using Walked by (simp add: scan_walk_append scan_files_append same_but_log_def)
  next
    case w2: (Walked st2)
    let ?bad = "scan_files E directory search_string lang_suffix other_lang_suffix root files2
           (log_file_error (path_join root file) e st2)"
    let ?good = "scan_files E directory search_string lang_suffix other_lang_suffix root files2 st2"
    have s: "same_walk_outcome ?bad ?good"
      by (rule scan_files_same) (simp add: same_but_log_def log_file_error_def print_def)
    have l: "scan_walk E directory search_string lang_suffix other_lang_suffix
        (before @ (root, dirs, files1 @ file # files2) # after) st =
        (case ?bad of Walked st' \<Rightarrow> scan_walk E directory search_string lang_suffix other_lang_suffix after st'
         | Limit_reached st' \<Rightarrow> Limit_reached st')"
      using Walked w2 assms by (simp add: scan_walk_append scan_files_append)
    have r: "scan_walk E directory search_string lang_suffix other_lang_suffix
        (before @ (root, dirs, files1 @ files2) # after) st =
        (case ?good of Walked st' \<Rightarrow> scan_walk E directory search_string lang_suffix other_lang_suffix after st'
         | Limit_reached st' \<Rightarrow> Limit_reached st')"
      using Walked w2 by (simp add: scan_walk_append scan_files_append)
    show ?thesis
    proof (cases ?bad)
      case b: (Walked sb)
      then obtain sg where g: "?good = Walked sg" and sb: "same_but_log sb sg"
        using s by (cases ?good) auto
      show ?thesis unfolding l r b g using scan_walk_same[OF sb] by simp
    next
      case b: (Limit_reached sb)
      then obtain sg where g: "?good = Limit_reached sg" and sb: "same_but_log sb sg"
        using s by (cases ?good) auto
      show ?thesis unfolding l r b g using sb by simp
    qed
  qed
qed


lemma pysrt_open_os_walk [simp]: "pysrt_open (E\<lparr>os_walk := f\<rparr>) p = pysrt_open E p"
  by (simp add: pysrt_open_def)

lemma path_exists_os_walk [simp]: "path_exists (E\<lparr>os_walk := f\<rparr>) p = path_exists E p"
  by (simp add: path_exists_def)

lemma sendall_os_walk [simp]: "sendall (E\<lparr>os_walk := f\<rparr>) data w = sendall E data w"
  by (simp add: sendall_def)

lemma find_translation_os_walk [simp]:
  "find_translation_in_other_lang (E\<lparr>os_walk := f\<rparr>) directory start_time file_path
     from_lang_suffix to_lang_suffix tolerance =
   find_translation_in_other_lang E directory start_time file_path from_lang_suffix to_lang_suffix
     tolerance"
  by (simp add: find_translation_in_other_lang_def Let_def cong: if_cong)

lemma on_match_os_walk [simp]:
  "on_match (E\<lparr>os_walk := f\<rparr>) directory lang_suffix other_lang_suffix file_path s st =
   on_match E directory lang_suffix other_lang_suffix file_path s st"
  by (simp add: on_match_def Let_def cong: sum.case_cong)

lemma scan_subs_os_walk [simp]:
  "scan_subs (E\<lparr>os_walk := f\<rparr>) directory search_string lang_suffix other_lang_suffix file_path xs st =
   scan_subs E directory search_string lang_suffix other_lang_suffix file_path xs st"
  by (induction xs arbitrary: st) (auto split: outcome.splits)

lemma scan_files_os_walk [simp]:
  "scan_files (E\<lparr>os_walk := f\<rparr>) directory search_string lang_suffix other_lang_suffix root fs st =
   scan_files E directory search_string lang_suffix other_lang_suffix root fs st"
  by (induction fs arbitrary: st) (auto simp: Let_def split: outcome.splits sum.splits)

lemma scan_walk_os_walk [simp]:
  "scan_walk (E\<lparr>os_walk := f\<rparr>) directory search_string lang_suffix other_lang_suffix ws st =
   scan_walk E directory search_string lang_suffix other_lang_suffix ws st"
  by (induction ws arbitrary: st) (auto split: walk_outcome.splits)

lemma stream_same:
  assumes "same_walk_outcome (search_walk E directory q w) (search_walk E' directory' q' w')"
  shows "fst (stream_subtitle_search E directory q w) = fst (stream_subtitle_search E' directory' q' w') \<and>
         sent (snd (stream_subtitle_search E directory q w)) =
         sent (snd (stream_subtitle_search E' directory' q' w'))"
  using assms
  by (cases "search_walk E directory q w"; cases "search_walk E' directory' q' w'")
     (auto simp: stream_subtitle_search_def same_but_log_def)

lemma on_match_frames:
  assumes "frames_ok base st"
  shows "outcome_frames base (on_match E directory lang_suffix other_lang_suffix file_path s st)"
proof (cases rule: on_match_cases[of E directory lang_suffix other_lang_suffix file_path s st])
  case (lookup e)
  then show ?thesis using assms by (simp add: frames_ok_def matched_def)
next
  case (sent data)
  then show ?thesis using assms
    by (simp add: frames_ok_def frames_capped_def matched_def delivered_def)
next
  case (more data)
  then show ?thesis using assms
    by (simp add: frames_ok_def matched_def delivered_def)
next
  case refused
  then show ?thesis using assms by (simp add: frames_ok_def matched_def refused_def)
qed

lemma scan_subs_frames:
  assumes "frames_ok base st"
  shows "outcome_frames base
           (scan_subs E directory search_string lang_suffix other_lang_suffix file_path xs st)"
  using assms
proof (induction xs arbitrary: st)
  case Nil
  then show ?case by simp
next
  case (Cons x xs)
  show ?case
  proof (cases "matches search_string x")
    case False
    then show ?thesis using Cons by simp
  next
    case True
    from on_match_frames[OF Cons.prems, of E directory lang_suffix other_lang_suffix file_path x]
    show ?thesis using True Cons.IH
      by (cases "on_match E directory lang_suffix other_lang_suffix file_path x st") auto
  qed
qed

lemma frames_ok_log [simp]: "frames_ok base (log_file_error p e st) = frames_ok base st"
  by (simp add: frames_ok_def log_file_error_def print_def)

lemma scan_files_frames:
  assumes "frames_ok base st"
  shows "walk_frames base
           (scan_files E directory search_string lang_suffix other_lang_suffix root fs st)"
  using assms
proof (induction fs arbitrary: st)
  case Nil
  then show ?case by simp
next
  case (Cons f fs)
  show ?case
  proof (cases "endswith f (''_'' @ lang_suffix @ ''.srt'')")
    case False
    then show ?thesis using Cons by simp
  next
    case True
    show ?thesis
    proof (cases "pysrt_open E (path_join root f)")
      case (Inl e)
      then show ?thesis using True Cons by simp
    next
      case (Inr subs)
      from scan_subs_frames[OF Cons.prems, of E directory search_string lang_suffix
          other_lang_suffix "path_join root f" subs]
      show ?thesis using True Inr Cons.IH
        by (cases "scan_subs E directory search_string lang_suffix other_lang_suffix
              (path_join root f) subs st") auto
    qed
  qed
qed

lemma scan_walk_frames:
  assumes "frames_ok base st"
  shows "walk_frames base
           (scan_walk E directory search_string lang_suffix other_lang_suffix ws st)"
  using assms
proof (induction ws arbitrary: st)
  case Nil
  then show ?case by simp
next
  case (Cons w ws)
  obtain root dirs fs where w: "w = (root, dirs, fs)" by (cases w) auto
  from scan_files_frames[OF Cons.prems, of E directory search_string lang_suffix
      other_lang_suffix root fs]
  show ?case using Cons.IH unfolding w
    by (cases "scan_files E directory search_string lang_suffix other_lang_suffix root fs st") auto
qed

lemma on_match_grows:
  "prefix (sent (io st))
     (sent (io (final (on_match E directory lang_suffix other_lang_suffix file_path s st))))"
  by (cases rule: on_match_cases[of E directory lang_suffix other_lang_suffix file_path s st])
     (simp_all add: matched_def delivered_def refused_def)

lemma scan_subs_grows:
  "prefix (sent (io st))
     (sent (io (final (scan_subs E directory search_string lang_suffix other_lang_suffix
                         file_path xs st))))"
proof (induction xs arbitrary: st)
  case Nil
  then show ?case by simp
next
  case (Cons x xs)
  show ?case
  proof (cases "matches search_string x")
    case False
    then show ?thesis using Cons by simp
  next
    case True
    have p: "prefix (sent (io st))
       (sent (io (final (on_match E directory lang_suffix other_lang_suffix file_path x st))))"
      by (rule on_match_grows)
    show ?thesis
    proof (cases "on_match E directory lang_suffix other_lang_suffix file_path x st")
      case (Normal st')
      with p have "prefix (sent (io st)) (sent (io st'))" by simp
      then show ?thesis using True Normal Cons.IH[of st'] by (auto intro: prefix_order.trans)
    next
      case (Raised e st')
      then show ?thesis using p True by simp
    next
      case (Returned st')
      then show ?thesis using p True by simp
    qed
  qed
qed

lemma scan_files_grows:
  "prefix (sent (io st))
     (sent (io (state_of (scan_files E directory search_string lang_suffix other_lang_suffix
                            root fs st))))"
proof (induction fs arbitrary: st)
  case Nil
  then show ?case by simp
next
  case (Cons f fs)
  show ?case
  proof (cases "endswith f (''_'' @ lang_suffix @ ''.srt'')")
    case False
    then show ?thesis using Cons by simp
  next
    case True
    show ?thesis
    proof (cases "pysrt_open E (path_join root f)")
      case (Inl e)
      have "sent (io (log_file_error (path_join root f) e st)) = sent (io st)"
        by (simp add: log_file_error_def print_def)
      then show ?thesis using True Inl Cons.IH[of "log_file_error (path_join root f) e st"] by simp
    next
      case (Inr subs)
      have p: "prefix (sent (io st))
         (sent (io (final (scan_subs E directory search_string lang_suffix other_lang_suffix
                         (path_join root f) subs st))))"
        by (rule scan_subs_grows)
      show ?thesis
      proof (cases "scan_subs E directory search_string lang_suffix other_lang_suffix
              (path_join root f) subs st")
        case (Normal st')
        with p have "prefix (sent (io st)) (sent (io st'))" by simp
        then show ?thesis using True Inr Normal Cons.IH[of st']
          by (auto intro: prefix_order.trans)
      next
        case (Raised e st')
        with p have "prefix (sent (io st)) (sent (io (log_file_error (path_join root f) e st')))"
          by (simp add: log_file_error_def print_def)
        then show ?thesis using True Inr Raised Cons.IH[of "log_file_error (path_join root f) e st'"]
          by (auto intro: prefix_order.trans)
      next
        case (Returned st')
        then show ?thesis using p True Inr by simp
      qed
    qed
  qed
qed

lemma scan_walk_grows:
  "prefix (sent (io st))
     (sent (io (state_of (scan_walk E directory search_string lang_suffix other_lang_suffix
                            ws st))))"
proof (induction ws arbitrary: st)
  case Nil
  then show ?case by simp
next
  case (Cons w ws)
  obtain root dirs fs where w: "w = (root, dirs, fs)" by (cases w) auto
  have p: "prefix (sent (io st))
     (sent (io (state_of (scan_files E directory search_string lang_suffix other_lang_suffix
                            root fs st))))"
    by (rule scan_files_grows)
  show ?case
  proof (cases "scan_files E directory search_string lang_suffix other_lang_suffix root fs st")
    case (Walked st')
    with p have "prefix (sent (io st)) (sent (io st'))" by simp
    then show ?thesis using Walked Cons.IH[of st'] unfolding w
      by (auto intro: prefix_order.trans)
  next
    case (Limit_reached st')
    then show ?thesis using p unfolding w by simp
  qed
qed

lemma stream_io: "snd (stream_subtitle_search E directory q w) = io (state_of (search_walk E directory q w))"
  by (cases "search_walk E directory q w") (simp_all add: stream_subtitle_search_def)

lemma stream_frames:
  "\<exists>frames. sent (snd (stream_subtitle_search E directory q w)) = sent w @ frames \<and>
             length frames \<le> SEARCH_LIMIT"
proof -
  let ?st0 = "\<lparr>found_matches = False, count = 0, io = w\<rparr>"
  let ?out = "search_walk E directory q w"
  have "frames_ok (length (sent w)) ?st0" by (simp add: frames_ok_def SEARCH_LIMIT_def)
  then have "walk_frames (length (sent w)) ?out"
    unfolding search_walk_def by (rule scan_walk_frames)
  then have b: "length (sent (io (state_of ?out))) \<le> length (sent w) + SEARCH_LIMIT"
    by (cases ?out) (simp_all add: frames_ok_def frames_capped_def)
  have "prefix (sent (io ?st0)) (sent (io (state_of ?out)))"
    unfolding search_walk_def by (rule scan_walk_grows)
  then obtain frames where f: "sent (io (state_of ?out)) = sent w @ frames"
    by (auto simp: prefix_def)
  with b have "length frames \<le> SEARCH_LIMIT" by simp
  with f show ?thesis by (auto simp: stream_io)
qed

lemma scan_subs_invariant:
  assumes "I st"
    and step: "\<And>s st. I st \<Longrightarrow> I (final (on_match E directory lang_suffix other_lang_suffix file_path s st))"
  shows "I (final (scan_subs E directory search_string lang_suffix other_lang_suffix file_path xs st))"
  using assms(1)
proof (induction xs arbitrary: st)
  case Nil
  then show ?case by simp
next
  case (Cons x xs)
  show ?case
  proof (cases "matches search_string x")
    case False
    then show ?thesis using Cons by simp
  next
    case True
    from step[OF Cons.prems, of x]
    show ?thesis using True Cons.IH
      by (cases "on_match E directory lang_suffix other_lang_suffix file_path x st") auto
  qed
qed

lemma scan_files_invariant:
  assumes "I st"
    and step: "\<And>file_path s st. I st \<Longrightarrow> I (final (on_match E directory lang_suffix other_lang_suffix file_path s st))"
    and log: "\<And>p e st. I st \<Longrightarrow> I (log_file_error p e st)"
  shows "I (state_of (scan_files E directory search_string lang_suffix other_lang_suffix root fs st))"
  using assms(1)
proof (induction fs arbitrary: st)
  case Nil
  then show ?case by simp
next
  case (Cons f fs)
  show ?case
  proof (cases "endswith f (''_'' @ lang_suffix @ ''.srt'')")
    case False
    then show ?thesis using Cons by simp
  next
    case True
    show ?thesis
    proof (cases "pysrt_open E (path_join root f)")
      case (Inl e)
      then show ?thesis using True Cons.IH[OF log[OF Cons.prems]] by simp
    next
      case (Inr subs)
      have "I (final (scan_subs E directory search_string lang_suffix other_lang_suffix
                (path_join root f) subs st))"
        using Cons.prems step by (rule scan_subs_invariant)
      then show ?thesis using True Inr Cons.IH log
        by (cases "scan_subs E directory search_string lang_suffix other_lang_suffix
              (path_join root f) subs st") auto
    qed
  qed
qed

lemma scan_walk_invariant:
  assumes "I st"
    and step: "\<And>file_path s st. I st \<Longrightarrow> I (final (on_match E directory lang_suffix other_lang_suffix file_path s st))"
    and log: "\<And>p e st. I st \<Longrightarrow> I (log_file_error p e st)"
  shows "I (state_of (scan_walk E directory search_string lang_suffix other_lang_suffix ws st))"
  using assms(1)
proof (induction ws arbitrary: st)
  case Nil
  then show ?case by simp
next
  case (Cons w ws)
  obtain root dirs fs where w: "w = (root, dirs, fs)" by (cases w) auto
  have "I (state_of (scan_files E directory search_string lang_suffix other_lang_suffix root fs st))"
    using Cons.prems step log by (rule scan_files_invariant)
  then show ?case using Cons.IH unfolding w
    by (cases "scan_files E directory search_string lang_suffix other_lang_suffix root fs st") auto
qed

lemma scan_walk_broken:
  assumes "broken_from E (attempts (io st))"
  shows "sent (io (state_of (scan_walk E directory search_string lang_suffix other_lang_suffix ws st)))
         = sent (io st)"
proof -
  let ?I = "\<lambda>x :: search_state. sent (io x) = sent (io st) \<and> attempts (io st) \<le> attempts (io x)"
  have "?I (state_of (scan_walk E directory search_string lang_suffix other_lang_suffix ws st))"
  proof (rule scan_walk_invariant[where I = ?I])
    show "?I st" by simp
  next
    fix file_path s x assume i: "?I x"
    then have "\<not> send_ok E (attempts (io x))" using assms by (simp add: broken_from_def)
    then show "?I (final (on_match E directory lang_suffix other_lang_suffix file_path s x))"
      using i
      by (cases rule: on_match_cases[of E directory lang_suffix other_lang_suffix file_path s x])
         (simp_all add: matched_def refused_def)
  next
    fix p e x assume "?I x"
    then show "?I (log_file_error p e x)" by (simp add: log_file_error_def print_def)
  qed
  then show ?thesis by simp
qed

lemma scan_walk_found_if_tried:
  "attempts (io (state_of (scan_walk E directory search_string lang_suffix other_lang_suffix ws st)))
     \<noteq> attempts (io st) \<Longrightarrow>
   found_matches (state_of (scan_walk E directory search_string lang_suffix other_lang_suffix ws st))"
proof -
  let ?I = "\<lambda>x :: search_state. attempts (io x) \<noteq> attempts (io st) \<longrightarrow> found_matches x"
  have "?I (state_of (scan_walk E directory search_string lang_suffix other_lang_suffix ws st))"
  proof (rule scan_walk_invariant[where I = ?I])
    show "?I st" by simp
  next
    fix file_path s x assume i: "?I x"
    show "?I (final (on_match E directory lang_suffix other_lang_suffix file_path s x))"
      by (cases rule: on_match_cases[of E directory lang_suffix other_lang_suffix file_path s x])
         (simp_all add: matched_def)
  next
    fix p e x assume "?I x"
    then show "?I (log_file_error p e x)" by (simp add: log_file_error_def print_def)
  qed
  then show "attempts (io (state_of (scan_walk E directory search_string lang_suffix other_lang_suffix ws st)))
     \<noteq> attempts (io st) \<Longrightarrow>
   found_matches (state_of (scan_walk E directory search_string lang_suffix other_lang_suffix ws st))"
    by simp
qed

lemma scan_walk_delivered_before:
  assumes "broken_from E j" "attempts (io st) \<le> j"
  shows "length (sent (io (state_of (scan_walk E directory search_string lang_suffix
            other_lang_suffix ws st)))) + attempts (io st) \<le> length (sent (io st)) + j"
proof -
  let ?I = "\<lambda>x :: search_state. length (sent (io x)) + attempts (io st) \<le> length (sent (io st)) + min (attempts (io x)) j
              \<and> attempts (io st) \<le> attempts (io x)"
  have "?I (state_of (scan_walk E directory search_string lang_suffix other_lang_suffix ws st))"
  proof (rule scan_walk_invariant[where I = ?I])
    show "?I st" using assms(2) by simp
  next
    fix file_path s x assume i: "?I x"
    show "?I (final (on_match E directory lang_suffix other_lang_suffix file_path s x))"
    proof (cases rule: on_match_cases[of E directory lang_suffix other_lang_suffix file_path s x])
      case (lookup e)
      then show ?thesis using i by (simp add: matched_def)
    next
      case (sent data)
      then have "attempts (io x) < j" using assms(1) by (auto simp: broken_from_def not_le[symmetric])
      then show ?thesis using i sent by (simp add: matched_def delivered_def)
    next
      case (more data)
      then have "attempts (io x) < j" using assms(1) by (auto simp: broken_from_def not_le[symmetric])
      then show ?thesis using i more by (simp add: matched_def delivered_def)
    next
      case refused
      then show ?thesis using i by (auto simp: matched_def refused_def)
    qed
  next
    fix p e x assume "?I x"
    then show "?I (log_file_error p e x)" by (simp add: log_file_error_def print_def)
  qed
  then show ?thesis by arith
qed

lemma scan_files_no_match:
  assumes "\<forall>file \<in> set fs. endswith file (''_'' @ lang_suffix @ ''.srt'') \<longrightarrow>
        (case pysrt_open E (path_join root file) of
           Inl e \<Rightarrow> True
         | Inr subs \<Rightarrow> \<forall>s \<in> set subs. \<not> matches q s)"
  shows "\<exists>st'. scan_files E directory q lang_suffix other_lang_suffix root fs st = Walked st' \<and>
               same_but_log st' st"
  using assms
proof (induction fs arbitrary: st)
  case Nil
  then show ?case by (simp add: same_but_log_def)
next
  case (Cons f fs)
  have rest: "\<forall>file \<in> set fs. endswith file (''_'' @ lang_suffix @ ''.srt'') \<longrightarrow>
        (case pysrt_open E (path_join root file) of
           Inl e \<Rightarrow> True
         | Inr subs \<Rightarrow> \<forall>s \<in> set subs. \<not> matches q s)"
    using Cons.prems by simp
  show ?case
  proof (cases "endswith f (''_'' @ lang_suffix @ ''.srt'')")
    case False
    then show ?thesis using Cons.IH[OF rest, of st] by simp
  next
    case True
    show ?thesis
    proof (cases "pysrt_open E (path_join root f)")
      case (Inl e)
      from Cons.IH[OF rest, of "log_file_error (path_join root f) e st"]
      show ?thesis using True Inl by simp
    next
      case (Inr subs)
      then have "\<forall>s \<in> set subs. \<not> matches q s" using Cons.prems True by simp
      then have "scan_subs E directory q lang_suffix other_lang_suffix (path_join root f) subs st
                 = Normal st"
        by (rule scan_subs_no_match)
      then show ?thesis using True Inr Cons.IH[OF rest, of st] by simp
    qed
  qed
qed

lemma same_but_log_trans: "same_but_log a b \<Longrightarrow> same_but_log b c \<Longrightarrow> same_but_log a c"
  by (simp add: same_but_log_def)

lemma scan_walk_no_match:
  assumes "\<forall>(root, dirs, files) \<in> set ws. \<forall>file \<in> set files.
        endswith file (''_'' @ lang_suffix @ ''.srt'') \<longrightarrow>
        (case pysrt_open E (path_join root file) of
           Inl e \<Rightarrow> True
         | Inr subs \<Rightarrow> \<forall>s \<in> set subs. \<not> matches q s)"
  shows "\<exists>st'. scan_walk E directory q lang_suffix other_lang_suffix ws st = Walked st' \<and>
               same_but_log st' st"
  using assms
proof (induction ws arbitrary: st)
  case Nil
  then show ?case by (simp add: same_but_log_def)
next
  case (Cons w ws)
  obtain root dirs fs where w: "w = (root, dirs, fs)" by (cases w) auto
  have "\<forall>file \<in> set fs. endswith file (''_'' @ lang_suffix @ ''.srt'') \<longrightarrow>
        (case pysrt_open E (path_join root file) of
           Inl e \<Rightarrow> True
         | Inr subs \<Rightarrow> \<forall>s \<in> set subs. \<not> matches q s)"
    using Cons.prems unfolding w by simp
  then obtain st1 where s1: "scan_files E directory q lang_suffix other_lang_suffix root fs st = Walked st1"
    and l1: "same_but_log st1 st"
    using scan_files_no_match by blast
  have "\<forall>(root, dirs, files) \<in> set ws. \<forall>file \<in> set files.
        endswith file (''_'' @ lang_suffix @ ''.srt'') \<longrightarrow>
        (case pysrt_open E (path_join root file) of
           Inl e \<Rightarrow> True
         | Inr subs \<Rightarrow> \<forall>s \<in> set subs. \<not> matches q s)"
    using Cons.prems by simp
  from Cons.IH[OF this, of st1]
  obtain st2 where s2: "scan_walk E directory q lang_suffix other_lang_suffix ws st1 = Walked st2"
    and l2: "same_but_log st2 st1" by blast
  have "scan_walk E directory q lang_suffix other_lang_suffix (w # ws) st = Walked st2"
    unfolding w using s1 s2 by simp
  then show ?case using same_but_log_trans[OF l2 l1] by blast
qed

lemma stream_no_match:
  assumes "no_match E directory q"
  shows "fst (stream_subtitle_search E directory q w) = False \<and>
         sent (snd (stream_subtitle_search E directory q w)) = sent w \<and>
         attempts (snd (stream_subtitle_search E directory q w)) = attempts w"
proof -
  let ?st0 = "\<lparr>found_matches = False, count = 0, io = w\<rparr>"
  from assms obtain st' where
    s: "scan_walk E directory q (lang_suffix_of q) (other_lang_suffix_of q) (os_walk E directory) ?st0
        = Walked st'" and l: "same_but_log st' ?st0"
    unfolding no_match_def using scan_walk_no_match by blast
  then show ?thesis
    by (simp add: stream_subtitle_search_def search_walk_def same_but_log_def)
qed

lemma encode_no_results_msg: "encode no_results_msg = ''No matching subtitles found.''"
  by code_simp

lemma end_marker_literal: "end_marker = ''\<newline><END>\<newline>''"
  by (simp add: end_marker_def)

lemma answer_query_found:
  assumes "fst (stream_subtitle_search E directory q (print (Search addr q) conn))"
    and "send_ok E (attempts (snd (stream_subtitle_search E directory q (print (Search addr q) conn))))"
  shows "answer_query E addr directory q conn =
         (Inr (), delivered end_marker (snd (stream_subtitle_search E directory q (print (Search addr q) conn))))"
  using assms
  by (cases "stream_subtitle_search E directory q (print (Search addr q) conn)")
     (simp add: answer_query_def sendall_def delivered_def)

lemma answer_query_not_found:
  assumes "\<not> fst (stream_subtitle_search E directory q (print (Search addr q) conn))"
    and "send_ok E (attempts (snd (stream_subtitle_search E directory q (print (Search addr q) conn))))"
    and "send_ok E (Suc (attempts (snd (stream_subtitle_search E directory q (print (Search addr q) conn)))))"
  shows "answer_query E addr directory q conn =
         (Inr (), delivered end_marker (delivered (encode no_results_msg)
                    (snd (stream_subtitle_search E directory q (print (Search addr q) conn)))))"
  using assms
  by (cases "stream_subtitle_search E directory q (print (Search addr q) conn)")
     (simp add: answer_query_def sendall_def delivered_def)

section \<open>Facts about the example data\<close>

lemma match_delivered_fields [simp]:
  "count (match_delivered data st) = count st + 1"
  "found_matches (match_delivered data st)"
  "sent (io (match_delivered data st)) = sent (io st) @ [data]"
  "attempts (io (match_delivered data st)) = Suc (attempts (io st))"
  "printed (io (match_delivered data st)) = printed (io st)"
  by (simp_all add: match_delivered_def matched_def delivered_def)

lemma funpow_match_delivered_fields [simp]:
  "count ((match_delivered data ^^ n) st) = count st + n"
  "sent (io ((match_delivered data ^^ n) st)) = sent (io st) @ replicate n data"
  "attempts (io ((match_delivered data ^^ n) st)) = attempts (io st) + n"
  by (induction n) (simp_all add: replicate_append_same)

lemma scan_subs_replicate:
  assumes "matches q s"
    and "find_translation_in_other_lang E directory (sub_start s) file_path lang_suffix
           other_lang_suffix 1000000 = Inr tr"
    and "\<forall>k. send_ok E k"
    and "count st + n < SEARCH_LIMIT"
  shows "scan_subs E directory q lang_suffix other_lang_suffix file_path (replicate n s) st =
         Normal ((match_delivered (frame_of lang_suffix other_lang_suffix file_path s tr) ^^ n) st)"
  using assms(4)
proof (induction n arbitrary: st)
  case 0
  then show ?case by simp
next
  case (Suc n)
  let ?f = "frame_of lang_suffix other_lang_suffix file_path s tr"
  have ok: "send_ok E (attempts (io st))" using assms(3) by simp
  have "on_match E directory lang_suffix other_lang_suffix file_path s st = Normal (match_delivered ?f st)"
    using on_match_delivered[OF assms(2) ok] Suc.prems by (simp add: match_delivered_def)
  moreover have "count (match_delivered ?f st) + n < SEARCH_LIMIT" using Suc.prems by simp
  ultimately show ?case using assms(1) Suc.IH[of "match_delivered ?f st"]
    by (simp add: funpow_swap1)
qed

lemma cap_env_simps:
  "os_walk cap_env d = [(''d'', [''x''], [''a_en.srt'', ''b_en.srt'', ''c_en.srt'', ''e_en.srt'']),
                        (''d/x'', [], [''f_en.srt''])]"
  "content cap_env = cap_content"
  "send_ok cap_env k"
  by (simp_all add: cap_env_def)

lemma matches_hello: "matches ''hello'' (sub_at 1000 ''hello'')"
  by code_simp

lemma cap_paths:
  "path_join ''d'' ''a_en.srt'' = ''d/a_en.srt''"
  "path_join ''d'' ''b_en.srt'' = ''d/b_en.srt''"
  "path_join ''d'' ''c_en.srt'' = ''d/c_en.srt''"
  "other_lang_file_path ''d/a_en.srt'' ''en'' ''ru'' = ''d/a_ru.srt''"
  "other_lang_file_path ''d/b_en.srt'' ''en'' ''ru'' = ''d/b_ru.srt''"
  "other_lang_file_path ''d/c_en.srt'' ''en'' ''ru'' = ''d/c_ru.srt''"
  by code_simp+

lemma cap_suffixes:
  "endswith ''a_en.srt'' (''_'' @ ''en'' @ ''.srt'')"
  "endswith ''b_en.srt'' (''_'' @ ''en'' @ ''.srt'')"
  "endswith ''c_en.srt'' (''_'' @ ''en'' @ ''.srt'')"
  by code_simp+

lemma hello_suffixes: "lang_suffix_of ''hello'' = ''en''" "other_lang_suffix_of ''hello'' = ''ru''"
  by code_simp+

lemma cap_translations:
  "find_translation_in_other_lang cap_env ''d'' t ''d/a_en.srt'' ''en'' ''ru'' 1000000 = Inr None"
  "find_translation_in_other_lang cap_env ''d'' t ''d/b_en.srt'' ''en'' ''ru'' 1000000 = Inl FileError"
  "find_translation_in_other_lang cap_env ''d'' t ''d/c_en.srt'' ''en'' ''ru'' 1000000 = Inr None"
  by (simp_all add: find_translation_missing find_translation_unreadable cap_paths cap_env_simps
      cap_content_def)

lemma cap_state_fields:
  "count cap_state = 12" "length (sent (io cap_state)) = 11" "attempts (io cap_state) = 11"
  by (simp_all add: cap_state_def log_file_error_def print_def matched_def ex_state_def ex_conn_def)

lemma cap_first_two_files:
  "scan_files cap_env ''d'' ''hello'' ''en'' ''ru'' ''d'' [''a_en.srt'', ''b_en.srt''] ex_state =
   Walked cap_state"
proof -
  let ?fa = "frame_of ''en'' ''ru'' ''d/a_en.srt'' (sub_at 1000 ''hello'') None"
  let ?s11 = "(match_delivered ?fa ^^ 11) ex_state"
  have a: "scan_subs cap_env ''d'' ''hello'' ''en'' ''ru'' ''d/a_en.srt''
             (replicate 11 (sub_at 1000 ''hello'')) ex_state = Normal ?s11"
    by (rule scan_subs_replicate)
       (simp_all add: matches_hello cap_translations cap_env_simps ex_state_def
          SEARCH_LIMIT_def)
  have b: "on_match cap_env ''d'' ''en'' ''ru'' ''d/b_en.srt'' (sub_at 1000 ''hello'') ?s11
           = Raised FileError (matched ?s11)"
    by (rule on_match_lookup_raises) (rule cap_translations)
  have oa: "pysrt_open cap_env ''d/a_en.srt'' = Inr (replicate 11 (sub_at 1000 ''hello''))"
    by (simp add: pysrt_open_def cap_env_simps cap_content_def)
  have ob: "pysrt_open cap_env ''d/b_en.srt'' = Inr [sub_at 1000 ''hello'']"
    by (simp add: pysrt_open_def cap_env_simps cap_content_def)
  show ?thesis
    using cap_suffixes by (simp add: Let_def cap_paths oa ob a b matches_hello cap_state_def)
qed

lemma cap_whole_search:
  "stream_subtitle_search cap_env ''d'' ''hello'' ex_conn =
   (True, delivered (frame_of ''en'' ''ru'' ''d/c_en.srt'' (sub_at 1000 ''hello'') None) (io cap_state))"
proof -
  let ?fc = "frame_of ''en'' ''ru'' ''d/c_en.srt'' (sub_at 1000 ''hello'') None"
  have oc: "pysrt_open cap_env ''d/c_en.srt'' = Inr [sub_at 1000 ''hello'', sub_at 2000 ''hello'']"
    by (simp add: pysrt_open_def cap_env_simps cap_content_def)
  have m: "on_match cap_env ''d'' ''en'' ''ru'' ''d/c_en.srt'' (sub_at 1000 ''hello'') cap_state =
           Returned ((matched cap_state)\<lparr>io := delivered ?fc (io cap_state)\<rparr>)"
    using on_match_delivered[of cap_env "''d''" "sub_at 1000 ''hello''" "''d/c_en.srt''" "''en''" "''ru''"
        None cap_state]
    by (simp add: cap_translations cap_env_simps cap_state_fields SEARCH_LIMIT_def sub_at_def)
  have c: "scan_files cap_env ''d'' ''hello'' ''en'' ''ru'' ''d'' [''c_en.srt'', ''e_en.srt''] cap_state
           = Limit_reached ((matched cap_state)\<lparr>io := delivered ?fc (io cap_state)\<rparr>)"
    using cap_suffixes by (simp add: Let_def cap_paths oc matches_hello m)
  have "scan_files cap_env ''d'' ''hello'' ''en'' ''ru'' ''d''
          ([''a_en.srt'', ''b_en.srt''] @ [''c_en.srt'', ''e_en.srt'']) ex_state
        = Limit_reached ((matched cap_state)\<lparr>io := delivered ?fc (io cap_state)\<rparr>)"
    unfolding scan_files_append cap_first_two_files by (simp only: c walk_outcome.case)
  then show ?thesis
    by (simp add: stream_subtitle_search_def search_walk_def hello_suffixes cap_env_simps
        ex_state_def[symmetric])
qed

lemma ex_env_simps:
  "os_walk ex_env d = [(''d'', [''x''], [''a_en.srt'', ''a_ru.srt'', ''bad_en.srt'', ''b_en.srt'',
                                      ''b_ru.srt'', ''notes.txt'', ''c_en.srt'']),
                       (''d/x'', [], [''e_en.srt''])]"
  "content ex_env = ex_content"
  "send_ok ex_env k"
  by (simp_all add: ex_env_def)

lemma broken_env_simps:
  "os_walk broken_env d = [(''d'', [''x''], [''a_en.srt'', ''a_ru.srt'', ''bad_en.srt'', ''b_en.srt'',
                                      ''b_ru.srt'', ''notes.txt'', ''c_en.srt'']),
                       (''d/x'', [], [''e_en.srt''])]"
  "content broken_env = ex_content"
  "\<not> send_ok broken_env k"
  by (simp_all add: broken_env_def ex_env_def)

lemma ex_paths:
  "path_join ''d'' ''a_en.srt'' = ''d/a_en.srt''"
  "path_join ''d'' ''bad_en.srt'' = ''d/bad_en.srt''"
  "path_join ''d'' ''b_en.srt'' = ''d/b_en.srt''"
  "path_join ''d'' ''c_en.srt'' = ''d/c_en.srt''"
  "other_lang_file_path ''d/a_en.srt'' ''en'' ''ru'' = ''d/a_ru.srt''"
  "other_lang_file_path ''d/b_en.srt'' ''en'' ''ru'' = ''d/b_ru.srt''"
  "other_lang_file_path ''d/c_en.srt'' ''en'' ''ru'' = ''d/c_ru.srt''"
  by code_simp+

lemma ex_suffixes:
  "endswith ''bad_en.srt'' (''_'' @ ''en'' @ ''.srt'')"
  "endswith ''b_en.srt'' (''_'' @ ''en'' @ ''.srt'')"
  "endswith ''c_en.srt'' (''_'' @ ''en'' @ ''.srt'')"
  by code_simp+

section \<open>The claims\<close>

subsection \<open>The cap on the frames of one query\<close>

text \<open>
  Claim C2, as amended. \<open>stream_subtitle_search\<close> sends at most twelve frames per query. The
  test of the counter against \<open>SEARCH_LIMIT\<close> comes after the frame of a match has been sent:
  wherever in the walk a frame is sent while the counter, the match included, is at twelve or
  more, the function returns true at once with that frame as the last payload, whatever
  records follow in the file, whatever files follow in the directory and whatever directories
  follow in the walk. (When the lookup of the translation or the write raises for a match, no
  test is made for that match.)
\<close>

theorem search_limit:
  "(\<exists>frames. sent (snd (stream_subtitle_search E directory q w)) = sent w @ frames \<and>
              length frames \<le> SEARCH_LIMIT) \<and>
   (os_walk E directory = before @ (root, dirs, files1 @ file # files2) # after \<and>
    scan_walk E directory q (lang_suffix_of q) (other_lang_suffix_of q) before
      \<lparr>found_matches = False, count = 0, io = w\<rparr> = Walked st1 \<and>
    scan_files E directory q (lang_suffix_of q) (other_lang_suffix_of q) root files1 st1 = Walked st2 \<and>
    endswith file (''_'' @ lang_suffix_of q @ ''.srt'') \<and>
    content E (path_join root file) = Some (Srt (pre @ s # post)) \<and>
    scan_subs E directory q (lang_suffix_of q) (other_lang_suffix_of q) (path_join root file) pre st2
      = Normal st3 \<and>
    matches q s \<and> SEARCH_LIMIT \<le> count st3 + 1 \<and>
    find_translation_in_other_lang E directory (sub_start s) (path_join root file) (lang_suffix_of q)
      (other_lang_suffix_of q) 1000000 = Inr tr \<and>
    send_ok E (attempts (io st3)) \<longrightarrow>
    stream_subtitle_search E directory q w =
      (True, delivered (frame_of (lang_suffix_of q) (other_lang_suffix_of q) (path_join root file) s tr)
               (io st3)))"
proof -
  let ?l = "lang_suffix_of q" and ?o = "other_lang_suffix_of q"
  let ?p = "path_join root file"
  have "stream_subtitle_search E directory q w = (True, delivered (frame_of ?l ?o ?p s tr) (io st3))"
    if w: "os_walk E directory = before @ (root, dirs, files1 @ file # files2) # after"
    and b: "scan_walk E directory q ?l ?o before \<lparr>found_matches = False, count = 0, io = w\<rparr> = Walked st1"
    and f1: "scan_files E directory q ?l ?o root files1 st1 = Walked st2"
    and e: "endswith file (''_'' @ ?l @ ''.srt'')"
    and c: "content E ?p = Some (Srt (pre @ s # post))"
    and p: "scan_subs E directory q ?l ?o ?p pre st2 = Normal st3"
    and m: "matches q s" and lim: "SEARCH_LIMIT \<le> count st3 + 1"
    and tr: "find_translation_in_other_lang E directory (sub_start s) ?p ?l ?o 1000000 = Inr tr"
    and ok: "send_ok E (attempts (io st3))"
  proof -
    let ?st' = "(matched st3)\<lparr>io := delivered (frame_of ?l ?o ?p s tr) (io st3)\<rparr>"
    have om: "on_match E directory ?l ?o ?p s st3 = Returned ?st'"
      using on_match_delivered[OF tr ok] lim by simp
    have ss: "scan_subs E directory q ?l ?o ?p (pre @ s # post) st2 = Returned ?st'"
      by (simp add: scan_subs_append p m om)
    have po: "pysrt_open E ?p = Inr (pre @ s # post)" using c by (simp add: pysrt_open_def)
    have sf: "scan_files E directory q ?l ?o root (files1 @ file # files2) st1 = Limit_reached ?st'"
      using e by (simp add: scan_files_append f1 po ss)
    have "search_walk E directory q w = Limit_reached ?st'"
      unfolding search_walk_def w by (simp add: scan_walk_append b sf)
    then show ?thesis by (simp add: stream_subtitle_search_def)
  qed
  then show ?thesis using stream_frames by blast
qed

theorem search_limit_witness:
  "os_walk cap_env ''d'' =
     [] @ (''d'', [''x''], [''a_en.srt'', ''b_en.srt''] @ ''c_en.srt'' # [''e_en.srt'']) #
       [(''d/x'', [], [''f_en.srt''])] \<and>
   scan_files cap_env ''d'' ''hello'' ''en'' ''ru'' ''d'' [''a_en.srt'', ''b_en.srt'']
     \<lparr>found_matches = False, count = 0, io = ex_conn\<rparr> = Walked cap_state \<and>
   content cap_env ''d/c_en.srt'' = Some (Srt ([] @ sub_at 1000 ''hello'' # [sub_at 2000 ''hello''])) \<and>
   matches ''hello'' (sub_at 1000 ''hello'') \<and> SEARCH_LIMIT \<le> count cap_state + 1 \<and>
   find_translation_in_other_lang cap_env ''d'' (sub_start (sub_at 1000 ''hello'')) ''d/c_en.srt''
     ''en'' ''ru'' 1000000 = Inr None \<and>
   send_ok cap_env (attempts (io cap_state)) \<and>
   stream_subtitle_search cap_env ''d'' ''hello'' ex_conn =
     (True, delivered (frame_of ''en'' ''ru'' ''d/c_en.srt'' (sub_at 1000 ''hello'') None) (io cap_state)) \<and>
   (\<exists>frames. sent (snd (stream_subtitle_search cap_env ''d'' ''hello'' ex_conn)) =
               sent ex_conn @ frames \<and> length frames \<le> SEARCH_LIMIT)"
proof -
  note inst = search_limit
    [where E = cap_env and directory = "''d''" and q = "''hello''" and w = ex_conn
       and before = "[]" and root = "''d''" and dirs = "[''x'']"
       and ?files1.0 = "[''a_en.srt'', ''b_en.srt'']" and ?file = "''c_en.srt''"
       and ?files2.0 = "[''e_en.srt'']" and after = "[(''d/x'', [], [''f_en.srt''])]"
       and ?st1.0 = "\<lparr>found_matches = False, count = 0, io = ex_conn\<rparr>" and ?st2.0 = cap_state
       and pre = "[]" and s = "sub_at 1000 ''hello''" and post = "[sub_at 2000 ''hello'']"
       and ?st3.0 = cap_state and tr = None,
     unfolded hello_suffixes cap_paths]
  have h1: "os_walk cap_env ''d'' =
     [] @ (''d'', [''x''], [''a_en.srt'', ''b_en.srt''] @ ''c_en.srt'' # [''e_en.srt'']) #
       [(''d/x'', [], [''f_en.srt''])]"
    by (simp add: cap_env_simps)
  have h2: "scan_walk cap_env ''d'' ''hello'' ''en'' ''ru'' []
              \<lparr>found_matches = False, count = 0, io = ex_conn\<rparr> =
            Walked \<lparr>found_matches = False, count = 0, io = ex_conn\<rparr>"
    by simp
  have h3: "scan_files cap_env ''d'' ''hello'' ''en'' ''ru'' ''d'' [''a_en.srt'', ''b_en.srt'']
              \<lparr>found_matches = False, count = 0, io = ex_conn\<rparr> = Walked cap_state"
    using cap_first_two_files by (simp only: ex_state_def)
  have h4: "endswith ''c_en.srt'' (''_'' @ ''en'' @ ''.srt'')" by (rule cap_suffixes)
  have h5: "content cap_env ''d/c_en.srt'' =
            Some (Srt ([] @ sub_at 1000 ''hello'' # [sub_at 2000 ''hello'']))"
    by (simp add: cap_env_simps cap_content_def)
  have h6: "scan_subs cap_env ''d'' ''hello'' ''en'' ''ru'' ''d/c_en.srt'' [] cap_state = Normal cap_state"
    by simp
  have h7: "matches ''hello'' (sub_at 1000 ''hello'')" by (rule matches_hello)
  have h8: "SEARCH_LIMIT \<le> count cap_state + 1" by (simp add: cap_state_fields SEARCH_LIMIT_def)
  have h9: "find_translation_in_other_lang cap_env ''d'' (sub_start (sub_at 1000 ''hello''))
              ''d/c_en.srt'' ''en'' ''ru'' 1000000 = Inr None"
    by (rule cap_translations)
  have h10: "send_ok cap_env (attempts (io cap_state))" by (rule cap_env_simps)
  from inst h1 h2 h3 h4 h5 h6 h7 h8 h9 h10
  have c: "stream_subtitle_search cap_env ''d'' ''hello'' ex_conn =
     (True, delivered (frame_of ''en'' ''ru'' ''d/c_en.srt'' (sub_at 1000 ''hello'') None) (io cap_state))"
    by blast
  from inst
  have d: "\<exists>frames. sent (snd (stream_subtitle_search cap_env ''d'' ''hello'' ex_conn)) =
               sent ex_conn @ frames \<and> length frames \<le> SEARCH_LIMIT"
    by blast
  from h1 h3 h5 h7 h8 h9 h10 c d show ?thesis by blast
qed

theorem search_limit_counterexample:
  "count (state_of (scan_files cap_env ''d'' ''hello'' ''en'' ''ru'' ''d'' [''a_en.srt'', ''b_en.srt'']
                      ex_state)) = 12 \<and>
   length (sent (io (state_of (scan_files cap_env ''d'' ''hello'' ''en'' ''ru'' ''d''
                                 [''a_en.srt'', ''b_en.srt''] ex_state)))) = 11 \<and>
   length (sent (snd (stream_subtitle_search cap_env ''d'' ''hello'' ex_conn))) = 12 \<and>
   last (sent (snd (stream_subtitle_search cap_env ''d'' ''hello'' ex_conn))) =
     frame_of ''en'' ''ru'' ''d/c_en.srt'' (sub_at 1000 ''hello'') None"
  unfolding cap_first_two_files cap_whole_search
  by (simp add: cap_state_fields delivered_def)

subsection \<open>A translation file that cannot be loaded\<close>

text \<open>
  Claim C3, as amended. \<open>find_translation_in_other_lang\<close> does not catch a failure to load
  the file of the other language: the exception leaves it and is caught by the handler that
  \<open>stream_subtitle_search\<close> puts around the work on one primary file. At the first matching
  record of that file the error is printed, no frame is sent for the match, the remaining
  records of the file are skipped, and the walk goes on with the remaining files.
\<close>

theorem translation_failure_skips_file:
  assumes "endswith file (''_'' @ lang_suffix @ ''.srt'')"
    and "content E (path_join root file) = Some (Srt (pre @ s # post))"
    and "\<forall>x \<in> set pre. \<not> matches q x"
    and "matches q s"
    and "content E (other_lang_file_path (path_join root file) lang_suffix other_lang_suffix) = Some Unreadable"
  shows "find_translation_in_other_lang E directory (sub_start s) (path_join root file) lang_suffix
           other_lang_suffix 1000000 = Inl FileError \<and>
         scan_files E directory q lang_suffix other_lang_suffix root (file # files) st =
           scan_files E directory q lang_suffix other_lang_suffix root files
             (log_file_error (path_join root file) FileError (matched st)) \<and>
         sent (io (log_file_error (path_join root file) FileError (matched st))) = sent (io st)"
proof -
  let ?p = "path_join root file"
  have f: "find_translation_in_other_lang E directory (sub_start s) ?p lang_suffix
           other_lang_suffix 1000000 = Inl FileError"
    using assms(5) by (rule find_translation_unreadable)
  have m: "on_match E directory lang_suffix other_lang_suffix ?p s st = Raised FileError (matched st)"
    using f by (rule on_match_lookup_raises)
  have p: "scan_subs E directory q lang_suffix other_lang_suffix ?p pre st = Normal st"
    using assms(3) by (rule scan_subs_no_match)
  have "scan_subs E directory q lang_suffix other_lang_suffix ?p (pre @ s # post) st =
        Raised FileError (matched st)"
    by (simp add: scan_subs_append p m assms(4))
  moreover have "pysrt_open E ?p = Inr (pre @ s # post)"
    using assms(2) by (simp add: pysrt_open_def)
  ultimately have "scan_files E directory q lang_suffix other_lang_suffix root (file # files) st =
           scan_files E directory q lang_suffix other_lang_suffix root files
             (log_file_error ?p FileError (matched st))"
    using assms(1) by simp
  moreover have "sent (io (log_file_error ?p FileError (matched st))) = sent (io st)"
    by (simp add: log_file_error_def print_def matched_def)
  ultimately show ?thesis using f by blast
qed

theorem translation_failure_skips_file_witness:
  "endswith ''b_en.srt'' (''_'' @ ''en'' @ ''.srt'') \<and>
   content ex_env ''d/b_en.srt'' =
     Some (Srt ([] @ sub_at 2000 ''hello there'' # [sub_at 4000 ''Hello again''])) \<and>
   matches ''hello'' (sub_at 2000 ''hello there'') \<and>
   content ex_env (other_lang_file_path ''d/b_en.srt'' ''en'' ''ru'') = Some Unreadable \<and>
   find_translation_in_other_lang ex_env ''d'' (sub_start (sub_at 2000 ''hello there''))
     ''d/b_en.srt'' ''en'' ''ru'' 1000000 = Inl FileError \<and>
   scan_files ex_env ''d'' ''hello'' ''en'' ''ru'' ''d'' (''b_en.srt'' # [''c_en.srt'']) ex_state =
     scan_files ex_env ''d'' ''hello'' ''en'' ''ru'' ''d'' [''c_en.srt'']
       (log_file_error ''d/b_en.srt'' FileError (matched ex_state)) \<and>
   sent (io (log_file_error ''d/b_en.srt'' FileError (matched ex_state))) = sent (io ex_state)"
proof -
  note inst = translation_failure_skips_file
    [where E = ex_env and directory = "''d''" and q = "''hello''" and lang_suffix = "''en''"
       and other_lang_suffix = "''ru''" and root = "''d''" and ?file = "''b_en.srt''"
       and files = "[''c_en.srt'']" and pre = "[]" and s = "sub_at 2000 ''hello there''"
       and post = "[sub_at 4000 ''Hello again'']" and st = ex_state,
     unfolded ex_paths]
  have h1: "endswith ''b_en.srt'' (''_'' @ ''en'' @ ''.srt'')" by (rule ex_suffixes)
  have h2: "content ex_env ''d/b_en.srt'' =
     Some (Srt ([] @ sub_at 2000 ''hello there'' # [sub_at 4000 ''Hello again'']))"
    by (simp add: ex_env_simps ex_content_def)
  have h3: "\<forall>x \<in> set []. \<not> matches ''hello'' x" by simp
  have h4: "matches ''hello'' (sub_at 2000 ''hello there'')" by code_simp
  have h5: "content ex_env ''d/b_ru.srt'' = Some Unreadable"
    by (simp add: ex_env_simps ex_content_def)
  from inst [OF h1 h2 h3 h4 h5] h1 h2 h4 h5 show ?thesis
    unfolding ex_paths by blast
qed

theorem translation_failure_counterexample:
  "matches ''hello'' (sub_at 2000 ''hello there'') \<and>
   matches ''hello'' (sub_at 4000 ''Hello again'') \<and>
   find_translation_in_other_lang ex_env ''d'' 2000 ''d/b_en.srt'' ''en'' ''ru'' 1000000 =
     Inl FileError \<and>
   scan_files ex_env ''d'' ''hello'' ''en'' ''ru'' ''d'' [''b_en.srt''] ex_state =
     Walked \<lparr>found_matches = True, count = 1,
             io = \<lparr>sent = [], attempts = 0,
                    printed = [Error_processing_file ''d/b_en.srt'' FileError], closed = False\<rparr>\<rparr>"
  by code_simp

subsection \<open>The text of a match\<close>

text \<open>
  Claim C4, as amended. The text of a match is stripped of the whitespace at its ends, then
  every run of spaces and newlines is replaced by one space, then the occurrences of
  \<open><i>\<close> and after them those of \<open></i>\<close> are deleted, each in one pass from left to
  right. Before the tags are deleted the text has no two neighbouring spaces or newlines and
  no whitespace at its ends; the result never holds a newline; and for a text that contains
  neither tag the result is that text, so it has both properties. The text
  \<open>Hello<i>\<newline>  world</i>  \<close> with a newline after the opening tag gives \<open>Hello world\<close>.
\<close>

theorem normalize_text_pipeline:
  "normalize_text s = replace ''</i>'' [] (replace ''<i>'' [] (re_sub_ws (strip s))) \<and>
   single_spaced (re_sub_ws (strip s)) \<and> trimmed (re_sub_ws (strip s)) \<and>
   CHR 0x0A \<notin> set (normalize_text s) \<and>
   (\<not> str_in ''<i>'' s \<and> \<not> str_in ''</i>'' s \<longrightarrow>
      normalize_text s = re_sub_ws (strip s) \<and> single_spaced (normalize_text s) \<and>
      trimmed (normalize_text s)) \<and>
   normalize_text ''Hello<i>\<newline>  world</i>  '' = ''Hello world''"
proof -
  let ?t = "re_sub_ws (strip s)"
  have a: "normalize_text s = replace ''</i>'' [] (replace ''<i>'' [] ?t)"
    by (simp add: normalize_text_def)
  have b: "single_spaced ?t" by (rule re_sub_ws_single_spaced)
  have c: "trimmed ?t" by (rule re_sub_ws_trimmed) (rule strip_trimmed)
  have "set (normalize_text s) \<subseteq> set ?t"
    unfolding a using set_replace_empty by (meson subset_trans)
  then have d: "CHR 0x0A \<notin> set (normalize_text s)"
    using re_sub_ws_no_newline by blast
  have e: "normalize_text s = ?t" if h: "\<not> str_in ''<i>'' s \<and> \<not> str_in ''</i>'' s"
  proof -
    have o: "\<not> str_in ''<i>'' ?t"
    proof
      assume "str_in ''<i>'' ?t"
      then have "str_in ''<i>'' (strip s)" by (rule str_in_re_sub_ws[rotated 2]) (simp_all add: sp_nl_def)
      then show False using h str_in_strip by blast
    qed
    have cl: "\<not> str_in ''</i>'' ?t"
    proof
      assume "str_in ''</i>'' ?t"
      then have "str_in ''</i>'' (strip s)" by (rule str_in_re_sub_ws[rotated 2]) (simp_all add: sp_nl_def)
      then show False using h str_in_strip by blast
    qed
    have "replace ''<i>'' [] ?t = ?t" using o by (intro replace_absent) simp_all
    moreover have "replace ''</i>'' [] ?t = ?t" using cl by (intro replace_absent) simp_all
    ultimately show ?thesis by (simp add: a)
  qed
  have f: "normalize_text ''Hello<i>\<newline>  world</i>  '' = ''Hello world''"
    by code_simp
  from a b c d e f show ?thesis by metis
qed

theorem normalize_text_counterexample:
  "normalize_text ''a <i> b'' = ''a  b'' \<and> \<not> single_spaced (normalize_text ''a <i> b'') \<and>
   normalize_text ''<i> a'' = '' a'' \<and> \<not> trimmed (normalize_text ''<i> a'') \<and>
   normalize_text ''<<i>i>a'' = ''<i>a''"
  by code_simp

theorem normalize_text_pipeline_witness:
  "\<not> str_in ''<i>'' ''  Hello\<newline>  world  '' \<and> \<not> str_in ''</i>'' ''  Hello\<newline>  world  '' \<and>
   re_sub_ws (strip ''  Hello\<newline>  world  '') = ''Hello world'' \<and>
   normalize_text ''  Hello\<newline>  world  '' = ''Hello world'' \<and>
   single_spaced (normalize_text ''  Hello\<newline>  world  '') \<and>
   trimmed (normalize_text ''  Hello\<newline>  world  '')"
proof -
  have h: "\<not> str_in ''<i>'' ''  Hello\<newline>  world  '' \<and> \<not> str_in ''</i>'' ''  Hello\<newline>  world  ''"
    by code_simp
  have v: "re_sub_ws (strip ''  Hello\<newline>  world  '') = ''Hello world''"
    by code_simp
  from normalize_text_pipeline [of "''  Hello\<newline>  world  ''"] h
  have n: "normalize_text ''  Hello\<newline>  world  '' = re_sub_ws (strip ''  Hello\<newline>  world  '')"
    and p: "single_spaced (normalize_text ''  Hello\<newline>  world  '')"
      "trimmed (normalize_text ''  Hello\<newline>  world  '')"
    by blast+
  from n v have "normalize_text ''  Hello\<newline>  world  '' = ''Hello world''"
    by (rule trans)
  with h v p show ?thesis by blast
qed

subsection \<open>A write that fails\<close>

text \<open>
  Claim C5, as amended. A \<open>sendall\<close> that raises for a frame ends neither the search nor, by
  itself, the session: the handler around the work on the file catches it, the error is
  printed, the rest of that file is skipped and the search goes on with the remaining files.
  From a state after which every write raises, the search delivers nothing more. When a
  write of the query's search has raised and every later write raises, the write of the end
  marker raises in turn, which ends the loop of the session with the frames delivered before
  the first failed write and nothing else; \<open>handle_client\<close> always closes the connection,
  and prints the error that ended the loop.
\<close>

theorem send_failure_handling:
  "(endswith file (''_'' @ lang_suffix @ ''.srt'') \<and>
    content E (path_join root file) = Some (Srt (pre @ s # post)) \<and>
    scan_subs E directory q lang_suffix other_lang_suffix (path_join root file) pre st = Normal st1 \<and>
    matches q s \<and>
    find_translation_in_other_lang E directory (sub_start s) (path_join root file) lang_suffix
      other_lang_suffix 1000000 = Inr tr \<and>
    \<not> send_ok E (attempts (io st1)) \<longrightarrow>
      scan_files E directory q lang_suffix other_lang_suffix root (file # files) st =
        scan_files E directory q lang_suffix other_lang_suffix root files
          (log_file_error (path_join root file) SendError ((matched st1)\<lparr>io := refused (io st1)\<rparr>))) \<and>
   (broken_from E (attempts (io st)) \<longrightarrow>
      sent (io (state_of (scan_walk E directory q lang_suffix other_lang_suffix ws st))) = sent (io st)) \<and>
   (strip received \<noteq> [] \<and> broken_from E j \<and> attempts conn \<le> j \<and>
    j < attempts (snd (stream_subtitle_search E directory (strip received)
                         (print (Search addr (strip received)) conn))) \<longrightarrow>
      session_loop E addr directory (Inr received # incoming) conn =
        (Inl SendError, refused (snd (stream_subtitle_search E directory (strip received)
                                        (print (Search addr (strip received)) conn)))) \<and>
      length (sent (snd (stream_subtitle_search E directory (strip received)
                           (print (Search addr (strip received)) conn)))) + attempts conn
        \<le> length (sent conn) + j) \<and>
   closed (handle_client E addr directory incoming conn) \<and>
   (fst (session_loop E addr directory incoming (print (New_connection addr) conn)) = Inl e \<longrightarrow>
      handle_client E addr directory incoming conn =
        print (Disconnected addr)
          ((print (Session_error e)
              (snd (session_loop E addr directory incoming (print (New_connection addr) conn))))
           \<lparr>closed := True\<rparr>))"
proof -
  let ?p = "path_join root file"
  have a: "scan_files E directory q lang_suffix other_lang_suffix root (file # files) st =
        scan_files E directory q lang_suffix other_lang_suffix root files
          (log_file_error ?p SendError ((matched st1)\<lparr>io := refused (io st1)\<rparr>))"
    if e: "endswith file (''_'' @ lang_suffix @ ''.srt'')"
      and c: "content E ?p = Some (Srt (pre @ s # post))"
      and p: "scan_subs E directory q lang_suffix other_lang_suffix ?p pre st = Normal st1"
      and m: "matches q s"
      and tr: "find_translation_in_other_lang E directory (sub_start s) ?p lang_suffix
                 other_lang_suffix 1000000 = Inr tr"
      and bad: "\<not> send_ok E (attempts (io st1))"
  proof -
    have "scan_subs E directory q lang_suffix other_lang_suffix ?p (pre @ s # post) st =
          Raised SendError ((matched st1)\<lparr>io := refused (io st1)\<rparr>)"
      by (simp add: scan_subs_append p m on_match_send_raises[OF tr bad])
    moreover have "pysrt_open E ?p = Inr (pre @ s # post)" using c by (simp add: pysrt_open_def)
    ultimately show ?thesis using e by simp
  qed
  have b: "sent (io (state_of (scan_walk E directory q lang_suffix other_lang_suffix ws st))) = sent (io st)"
    if "broken_from E (attempts (io st))"
    using that by (rule scan_walk_broken)
  have c: "session_loop E addr directory (Inr received # incoming) conn =
        (Inl SendError, refused (snd (stream_subtitle_search E directory (strip received)
                                        (print (Search addr (strip received)) conn)))) \<and>
      length (sent (snd (stream_subtitle_search E directory (strip received)
                           (print (Search addr (strip received)) conn)))) + attempts conn
        \<le> length (sent conn) + j"
    if ne: "strip received \<noteq> []" and br: "broken_from E j" and lo: "attempts conn \<le> j"
      and hi: "j < attempts (snd (stream_subtitle_search E directory (strip received)
                         (print (Search addr (strip received)) conn)))"
  proof -
    let ?q = "strip received"
    let ?c = "print (Search addr ?q) conn"
    let ?st0 = "\<lparr>found_matches = False, count = 0, io = ?c\<rparr>"
    let ?out = "search_walk E directory ?q ?c"
    let ?w1 = "snd (stream_subtitle_search E directory ?q ?c)"
    have w1: "?w1 = io (state_of ?out)"
      by (cases ?out) (simp_all add: stream_subtitle_search_def)
    have ac: "attempts ?c = attempts conn" "sent ?c = sent conn" by (simp_all add: print_def)
    have "attempts (io (state_of ?out)) \<noteq> attempts (io ?st0)"
      using hi lo w1 ac by simp
    then have "found_matches (state_of ?out)"
      unfolding search_walk_def by (rule scan_walk_found_if_tried)
    then have f: "fst (stream_subtitle_search E directory ?q ?c)"
      by (cases ?out) (simp_all add: stream_subtitle_search_def)
    have "\<not> send_ok E (attempts ?w1)" using br hi by (simp add: broken_from_def)
    with f have "answer_query E addr directory ?q conn = (Inl SendError, refused ?w1)"
      by (cases "stream_subtitle_search E directory ?q ?c")
         (simp add: answer_query_def sendall_def refused_def)
    then have s: "session_loop E addr directory (Inr received # incoming) conn =
        (Inl SendError, refused ?w1)"
      using ne by (simp add: Let_def)
    have "attempts (io ?st0) \<le> j" using lo ac by simp
    from scan_walk_delivered_before[OF br this, of directory ?q "lang_suffix_of ?q"
        "other_lang_suffix_of ?q" "os_walk E directory"]
    have "length (sent ?w1) + attempts conn \<le> length (sent conn) + j"
      using w1 ac by (simp add: search_walk_def)
    with s show ?thesis by blast
  qed
  have d: "closed (handle_client E addr directory incoming conn)"
    by (simp add: handle_client_def print_def Let_def split: prod.splits)
  have e: "handle_client E addr directory incoming conn =
        print (Disconnected addr)
          ((print (Session_error e)
              (snd (session_loop E addr directory incoming (print (New_connection addr) conn))))
           \<lparr>closed := True\<rparr>)"
    if "fst (session_loop E addr directory incoming (print (New_connection addr) conn)) = Inl e"
    using that
    by (cases "session_loop E addr directory incoming (print (New_connection addr) conn)")
       (simp add: handle_client_def)
  from a b c d e show ?thesis by blast
qed

theorem send_failure_handling_witness:
  "endswith ''c_en.srt'' (''_'' @ ''en'' @ ''.srt'') \<and>
   content broken_env ''d/c_en.srt'' = Some (Srt ([] @ sub_at 100 ''well hello'' # [])) \<and>
   matches ''hello'' (sub_at 100 ''well hello'') \<and>
   find_translation_in_other_lang broken_env ''d'' (sub_start (sub_at 100 ''well hello''))
     ''d/c_en.srt'' ''en'' ''ru'' 1000000 = Inr None \<and>
   \<not> send_ok broken_env (attempts (io ex_state)) \<and>
   scan_files broken_env ''d'' ''hello'' ''en'' ''ru'' ''d'' (''c_en.srt'' # [''z_en.srt'']) ex_state =
     scan_files broken_env ''d'' ''hello'' ''en'' ''ru'' ''d'' [''z_en.srt'']
       (log_file_error ''d/c_en.srt'' SendError ((matched ex_state)\<lparr>io := refused (io ex_state)\<rparr>)) \<and>
   broken_from broken_env (attempts (io ex_state)) \<and>
   sent (io (state_of (scan_walk broken_env ''d'' ''hello'' ''en'' ''ru'' (os_walk broken_env ''d'')
                         ex_state))) = sent (io ex_state) \<and>
   strip ''well\<newline>'' \<noteq> [] \<and> broken_from broken_env 0 \<and> attempts ex_conn \<le> 0 \<and>
   0 < attempts (snd (stream_subtitle_search broken_env ''d'' (strip ''well\<newline>'')
                        (print (Search ''peer'' (strip ''well\<newline>'')) ex_conn))) \<and>
   session_loop broken_env ''peer'' ''d'' (Inr ''well\<newline>'' # [Inr ''hello'']) ex_conn =
     (Inl SendError,
      refused (snd (stream_subtitle_search broken_env ''d'' (strip ''well\<newline>'')
                      (print (Search ''peer'' (strip ''well\<newline>'')) ex_conn)))) \<and>
   length (sent (snd (stream_subtitle_search broken_env ''d'' (strip ''well\<newline>'')
                        (print (Search ''peer'' (strip ''well\<newline>'')) ex_conn)))) + attempts ex_conn
     \<le> length (sent ex_conn) + 0 \<and>
   closed (handle_client broken_env ''peer'' ''d'' [Inr ''well\<newline>''] ex_conn) \<and>
   fst (session_loop broken_env ''peer'' ''d'' [Inr ''well\<newline>''] (print (New_connection ''peer'') ex_conn))
     = Inl SendError \<and>
   handle_client broken_env ''peer'' ''d'' [Inr ''well\<newline>''] ex_conn =
     print (Disconnected ''peer'')
       ((print (Session_error SendError)
           (snd (session_loop broken_env ''peer'' ''d'' [Inr ''well\<newline>'']
                   (print (New_connection ''peer'') ex_conn))))
        \<lparr>closed := True\<rparr>)"
proof -
  note scan = send_failure_handling
    [where E = broken_env and directory = "''d''" and q = "''hello''" and lang_suffix = "''en''"
       and other_lang_suffix = "''ru''" and root = "''d''" and ?file = "''c_en.srt''"
       and files = "[''z_en.srt'']" and pre = "[]" and s = "sub_at 100 ''well hello''"
       and post = "[]" and st = ex_state and ?st1.0 = ex_state and tr = None
       and ws = "os_walk broken_env ''d''"
       and received = "''well\<newline>''" and j = 0 and conn = ex_conn and addr = "''peer''"
       and incoming = "[Inr ''hello'']" and e = SendError,
     unfolded ex_paths]
  note session = send_failure_handling
    [where E = broken_env and directory = "''d''" and conn = ex_conn and addr = "''peer''"
       and incoming = "[Inr ''well\<newline>'']" and e = SendError]
  have h1: "endswith ''c_en.srt'' (''_'' @ ''en'' @ ''.srt'')" by (rule ex_suffixes)
  have h2: "content broken_env ''d/c_en.srt'' = Some (Srt ([] @ sub_at 100 ''well hello'' # []))"
    by (simp add: broken_env_simps ex_content_def)
  have h3: "scan_subs broken_env ''d'' ''hello'' ''en'' ''ru'' ''d/c_en.srt'' [] ex_state = Normal ex_state"
    by simp
  have h4: "matches ''hello'' (sub_at 100 ''well hello'')" by code_simp
  have h5: "find_translation_in_other_lang broken_env ''d'' (sub_start (sub_at 100 ''well hello''))
     ''d/c_en.srt'' ''en'' ''ru'' 1000000 = Inr None"
    by (simp add: find_translation_missing ex_paths broken_env_simps ex_content_def)
  have h6: "\<not> send_ok broken_env (attempts (io ex_state))" by (rule broken_env_simps)
  have h7: "broken_from broken_env (attempts (io ex_state))"
    by (simp add: broken_from_def broken_env_simps)
  have h8: "strip ''well\<newline>'' \<noteq> []" by code_simp
  have h9: "broken_from broken_env 0" by (simp add: broken_from_def broken_env_simps)
  have h10: "attempts ex_conn \<le> 0" by (simp add: ex_conn_def)
  have h11: "0 < attempts (snd (stream_subtitle_search broken_env ''d'' (strip ''well\<newline>'')
                        (print (Search ''peer'' (strip ''well\<newline>'')) ex_conn)))"
    by code_simp
  have h12: "fst (session_loop broken_env ''peer'' ''d'' [Inr ''well\<newline>'']
                    (print (New_connection ''peer'') ex_conn)) = Inl SendError"
    by code_simp
  from scan h1 h2 h3 h4 h5 h6
  have c1: "scan_files broken_env ''d'' ''hello'' ''en'' ''ru'' ''d'' (''c_en.srt'' # [''z_en.srt'']) ex_state =
     scan_files broken_env ''d'' ''hello'' ''en'' ''ru'' ''d'' [''z_en.srt'']
       (log_file_error ''d/c_en.srt'' SendError ((matched ex_state)\<lparr>io := refused (io ex_state)\<rparr>))"
    by blast
  from scan h7
  have c2: "sent (io (state_of (scan_walk broken_env ''d'' ''hello'' ''en'' ''ru''
              (os_walk broken_env ''d'') ex_state))) = sent (io ex_state)"
    by blast
  from scan h8 h9 h10 h11
  have c3: "session_loop broken_env ''peer'' ''d'' (Inr ''well\<newline>'' # [Inr ''hello'']) ex_conn =
     (Inl SendError,
      refused (snd (stream_subtitle_search broken_env ''d'' (strip ''well\<newline>'')
                      (print (Search ''peer'' (strip ''well\<newline>'')) ex_conn)))) \<and>
   length (sent (snd (stream_subtitle_search broken_env ''d'' (strip ''well\<newline>'')
                        (print (Search ''peer'' (strip ''well\<newline>'')) ex_conn)))) + attempts ex_conn
     \<le> length (sent ex_conn) + 0"
    by blast
  from session
  have c4: "closed (handle_client broken_env ''peer'' ''d'' [Inr ''well\<newline>''] ex_conn)"
    by blast
  from session h12
  have c5: "handle_client broken_env ''peer'' ''d'' [Inr ''well\<newline>''] ex_conn =
     print (Disconnected ''peer'')
       ((print (Session_error SendError)
           (snd (session_loop broken_env ''peer'' ''d'' [Inr ''well\<newline>'']
                   (print (New_connection ''peer'') ex_conn))))
        \<lparr>closed := True\<rparr>)"
    by blast
  from h1 h2 h4 h5 h6 h7 h8 h9 h10 h11 h12 c1 c2 c3 c4 c5 show ?thesis by blast
qed

theorem send_failure_counterexample:
  "printed (handle_client broken_env ''peer'' ''d'' [Inr ''hello''] ex_conn) =
     [New_connection ''peer'', Search ''peer'' ''hello'',
      Error_processing_file ''d/a_en.srt'' SendError,
      Error_processing_file ''d/bad_en.srt'' FileError,
      Error_processing_file ''d/b_en.srt'' FileError,
      Error_processing_file ''d/c_en.srt'' SendError,
      Error_processing_file ''d/x/e_en.srt'' SendError,
      Session_error SendError, Disconnected ''peer'']"
  by code_simp

subsection \<open>A primary file that cannot be loaded\<close>

text \<open>
  Claim C6. When \<open>pysrt.open\<close> fails on a file of the primary language, the error is
  printed, nothing else changes, and the scan goes on with the files that follow. The search
  as a whole returns the same answer and sends the same frames as it would if the walk did
  not list that file.
\<close>

theorem bad_file_skipped:
  assumes "endswith file (''_'' @ lang_suffix_of q @ ''.srt'')"
    and "pysrt_open E (path_join root file) = Inl e"
  shows "scan_files E directory q (lang_suffix_of q) (other_lang_suffix_of q) root (file # files) st =
           scan_files E directory q (lang_suffix_of q) (other_lang_suffix_of q) root files
             (log_file_error (path_join root file) e st) \<and>
         printed (io (log_file_error (path_join root file) e st)) =
           printed (io st) @ [Error_processing_file (path_join root file) e] \<and>
         same_but_log (log_file_error (path_join root file) e st) st \<and>
         (os_walk E directory = before @ (root, dirs, files1 @ file # files2) # after \<longrightarrow>
            fst (stream_subtitle_search E directory q w) =
              fst (stream_subtitle_search
                     (E\<lparr>os_walk := \<lambda>d. before @ (root, dirs, files1 @ files2) # after\<rparr>) directory q w) \<and>
            sent (snd (stream_subtitle_search E directory q w)) =
              sent (snd (stream_subtitle_search
                     (E\<lparr>os_walk := \<lambda>d. before @ (root, dirs, files1 @ files2) # after\<rparr>) directory q w)))"
proof -
  have a: "scan_files E directory q (lang_suffix_of q) (other_lang_suffix_of q) root (file # files) st =
           scan_files E directory q (lang_suffix_of q) (other_lang_suffix_of q) root files
             (log_file_error (path_join root file) e st)"
    using assms by (rule scan_files_bad_file)
  have b: "printed (io (log_file_error (path_join root file) e st)) =
           printed (io st) @ [Error_processing_file (path_join root file) e]"
    by (simp add: log_file_error_def print_def)
  have c: "same_but_log (log_file_error (path_join root file) e st) st"
    by (simp add: same_but_log_def log_file_error_def print_def)
  have d: "fst (stream_subtitle_search E directory q w) =
              fst (stream_subtitle_search
                     (E\<lparr>os_walk := \<lambda>d. before @ (root, dirs, files1 @ files2) # after\<rparr>) directory q w) \<and>
            sent (snd (stream_subtitle_search E directory q w)) =
              sent (snd (stream_subtitle_search
                     (E\<lparr>os_walk := \<lambda>d. before @ (root, dirs, files1 @ files2) # after\<rparr>) directory q w))"
    if w: "os_walk E directory = before @ (root, dirs, files1 @ file # files2) # after"
  proof (rule stream_same)
    show "same_walk_outcome (search_walk E directory q w)
       (search_walk (E\<lparr>os_walk := \<lambda>d. before @ (root, dirs, files1 @ files2) # after\<rparr>) directory q w)"
      unfolding search_walk_def using scan_walk_skip_bad_file[OF assms] by (simp add: w)
  qed
  from a b c d show ?thesis by blast
qed

theorem bad_file_skipped_witness:
  "endswith ''bad_en.srt'' (''_'' @ lang_suffix_of ''hello'' @ ''.srt'') \<and>
   pysrt_open ex_env (path_join ''d'' ''bad_en.srt'') = Inl FileError \<and>
   os_walk ex_env ''d'' =
     [] @ (''d'', [''x''], [''a_en.srt'', ''a_ru.srt''] @ ''bad_en.srt'' #
             [''b_en.srt'', ''b_ru.srt'', ''notes.txt'', ''c_en.srt'']) #
       [(''d/x'', [], [''e_en.srt''])] \<and>
   scan_files ex_env ''d'' ''hello'' (lang_suffix_of ''hello'') (other_lang_suffix_of ''hello'') ''d''
       (''bad_en.srt'' # [''b_en.srt'']) ex_state =
     scan_files ex_env ''d'' ''hello'' (lang_suffix_of ''hello'') (other_lang_suffix_of ''hello'') ''d''
       [''b_en.srt''] (log_file_error (path_join ''d'' ''bad_en.srt'') FileError ex_state) \<and>
   printed (io (log_file_error (path_join ''d'' ''bad_en.srt'') FileError ex_state)) =
     printed (io ex_state) @ [Error_processing_file (path_join ''d'' ''bad_en.srt'') FileError] \<and>
   fst (stream_subtitle_search ex_env ''d'' ''hello'' ex_conn) =
     fst (stream_subtitle_search
            (ex_env\<lparr>os_walk := \<lambda>d. [] @ (''d'', [''x''], [''a_en.srt'', ''a_ru.srt''] @
                                           [''b_en.srt'', ''b_ru.srt'', ''notes.txt'', ''c_en.srt'']) #
                                       [(''d/x'', [], [''e_en.srt''])]\<rparr>) ''d'' ''hello'' ex_conn) \<and>
   sent (snd (stream_subtitle_search ex_env ''d'' ''hello'' ex_conn)) =
     sent (snd (stream_subtitle_search
            (ex_env\<lparr>os_walk := \<lambda>d. [] @ (''d'', [''x''], [''a_en.srt'', ''a_ru.srt''] @
                                           [''b_en.srt'', ''b_ru.srt'', ''notes.txt'', ''c_en.srt'']) #
                                       [(''d/x'', [], [''e_en.srt''])]\<rparr>) ''d'' ''hello'' ex_conn))"
proof -
  have h1: "endswith ''bad_en.srt'' (''_'' @ lang_suffix_of ''hello'' @ ''.srt'')" by code_simp
  have h2: "pysrt_open ex_env (path_join ''d'' ''bad_en.srt'') = Inl FileError"
    by (simp add: ex_paths pysrt_open_def ex_env_simps ex_content_def)
  have h3: "os_walk ex_env ''d'' =
     [] @ (''d'', [''x''], [''a_en.srt'', ''a_ru.srt''] @ ''bad_en.srt'' #
             [''b_en.srt'', ''b_ru.srt'', ''notes.txt'', ''c_en.srt'']) #
       [(''d/x'', [], [''e_en.srt''])]"
    by (simp add: ex_env_simps)
  note inst = bad_file_skipped
    [OF h1 h2, where directory = "''d''" and files = "[''b_en.srt'']" and st = ex_state
       and before = "[]" and dirs = "[''x'']" and ?files1.0 = "[''a_en.srt'', ''a_ru.srt'']"
       and ?files2.0 = "[''b_en.srt'', ''b_ru.srt'', ''notes.txt'', ''c_en.srt'']"
       and after = "[(''d/x'', [], [''e_en.srt''])]" and w = ex_conn]
  from inst h3 h1 h2 show ?thesis by blast
qed

subsection \<open>The path of the other language\<close>

text \<open>
  Claim C7. The resolver looks for the file whose name is the base name of the primary path
  with \<open>_\<close> and the primary suffix replaced by \<open>_\<close> and the secondary suffix, in the
  directory of the primary path; for a path that the walk builds from a directory and a file
  name, that base name is the file name. When nothing exists at the derived path the
  resolver returns none, and raises nothing.
\<close>

theorem resolver_sibling_path:
  "other_lang_file_path file_path from_lang_suffix to_lang_suffix =
     path_join (dirname file_path)
       (replace (''_'' @ from_lang_suffix) (''_'' @ to_lang_suffix) (basename file_path)) \<and>
   (CHR ''/'' \<notin> set file \<longrightarrow>
      other_lang_file_path (path_join root file) from_lang_suffix to_lang_suffix =
        path_join (dirname (path_join root file))
          (replace (''_'' @ from_lang_suffix) (''_'' @ to_lang_suffix) file)) \<and>
   (content E (other_lang_file_path file_path from_lang_suffix to_lang_suffix) = None \<longrightarrow>
      find_translation_in_other_lang E directory start_time file_path from_lang_suffix
        to_lang_suffix tolerance = Inr None)"
  by (simp add: other_lang_file_path_def basename_path_join find_translation_missing)

theorem resolver_sibling_path_witness:
  "CHR ''/'' \<notin> set ''c_en.srt'' \<and>
   other_lang_file_path (path_join ''d'' ''c_en.srt'') ''en'' ''ru'' =
     path_join (dirname (path_join ''d'' ''c_en.srt'')) (replace (''_'' @ ''en'') (''_'' @ ''ru'') ''c_en.srt'') \<and>
   other_lang_file_path ''d/c_en.srt'' ''en'' ''ru'' = ''d/c_ru.srt'' \<and>
   content ex_env (other_lang_file_path ''d/c_en.srt'' ''en'' ''ru'') = None \<and>
   find_translation_in_other_lang ex_env ''d'' 100 ''d/c_en.srt'' ''en'' ''ru'' 1000000 = Inr None"
proof -
  have s: "CHR ''/'' \<notin> set ''c_en.srt''" by simp
  have p: "other_lang_file_path ''d/c_en.srt'' ''en'' ''ru'' = ''d/c_ru.srt''" by code_simp
  have c: "content ex_env (other_lang_file_path ''d/c_en.srt'' ''en'' ''ru'') = None"
    unfolding p by (simp add: ex_env_def ex_content_def)
  from resolver_sibling_path
    [where ?file = "''c_en.srt''" and root = "''d''" and from_lang_suffix = "''en''"
       and to_lang_suffix = "''ru''"] s
  have "other_lang_file_path (path_join ''d'' ''c_en.srt'') ''en'' ''ru'' =
     path_join (dirname (path_join ''d'' ''c_en.srt'')) (replace (''_'' @ ''en'') (''_'' @ ''ru'') ''c_en.srt'')"
    by blast
  moreover from resolver_sibling_path
    [where E = ex_env and file_path = "''d/c_en.srt''" and from_lang_suffix = "''en''"
       and to_lang_suffix = "''ru''" and directory = "''d''" and start_time = 100
       and tolerance = 1000000] c
  have "find_translation_in_other_lang ex_env ''d'' 100 ''d/c_en.srt'' ''en'' ''ru'' 1000000 = Inr None"
    by blast
  ultimately show ?thesis using s p c by blast
qed

subsection \<open>The end of a query's answer\<close>

text \<open>
  Claim C8. On a connection that accepts the writes, a query that no record matches is
  answered by exactly the notice \<open>No matching subtitles found.\<close> followed by the end marker,
  with no frame; and the answer to every query ends with the end marker, written after the
  frames of the search when there was a match and after the notice when there was none. The
  same holds for a session that consists of one such query.
\<close>

theorem no_match_notice_and_end_marker:
  "(no_match E directory q \<and> send_ok E (attempts conn) \<and> send_ok E (Suc (attempts conn)) \<longrightarrow>
      fst (answer_query E addr directory q conn) = Inr () \<and>
      sent (snd (answer_query E addr directory q conn)) =
        sent conn @ [''No matching subtitles found.'', ''\<newline><END>\<newline>'']) \<and>
   (fst (stream_subtitle_search E directory q (print (Search addr q) conn)) \<and>
    send_ok E (attempts (snd (stream_subtitle_search E directory q (print (Search addr q) conn)))) \<longrightarrow>
      sent (snd (answer_query E addr directory q conn)) =
        sent (snd (stream_subtitle_search E directory q (print (Search addr q) conn))) @
          [''\<newline><END>\<newline>'']) \<and>
   (\<not> fst (stream_subtitle_search E directory q (print (Search addr q) conn)) \<and>
    send_ok E (attempts (snd (stream_subtitle_search E directory q (print (Search addr q) conn)))) \<and>
    send_ok E (Suc (attempts (snd (stream_subtitle_search E directory q (print (Search addr q) conn))))) \<longrightarrow>
      sent (snd (answer_query E addr directory q conn)) =
        sent (snd (stream_subtitle_search E directory q (print (Search addr q) conn))) @
          [''No matching subtitles found.'', ''\<newline><END>\<newline>'']) \<and>
   (strip received \<noteq> [] \<and> no_match E directory (strip received) \<and>
    send_ok E (attempts conn) \<and> send_ok E (Suc (attempts conn)) \<longrightarrow>
      sent (handle_client E addr directory [Inr received] conn) =
        sent conn @ [''No matching subtitles found.'', ''\<newline><END>\<newline>''])"
proof -
  let ?r = "\<lambda>q c. stream_subtitle_search E directory q (print (Search addr q) c)"
  have found: "sent (snd (answer_query E addr directory q conn)) =
        sent (snd (?r q conn)) @ [''\<newline><END>\<newline>'']"
    if "fst (?r q conn)" "send_ok E (attempts (snd (?r q conn)))"
    using answer_query_found[OF that] by (simp add: delivered_def end_marker_literal)
  have nf: "sent (snd (answer_query E addr directory q conn)) =
        sent (snd (?r q conn)) @ [''No matching subtitles found.'', ''\<newline><END>\<newline>'']"
    if "\<not> fst (?r q conn)" "send_ok E (attempts (snd (?r q conn)))"
       "send_ok E (Suc (attempts (snd (?r q conn))))"
    using answer_query_not_found[OF that]
    by (simp add: delivered_def end_marker_literal encode_no_results_msg)
  have none: "answer_query E addr directory q c =
        (Inr (), delivered end_marker (delivered (encode no_results_msg) (snd (?r q c)))) \<and>
        sent (snd (?r q c)) = sent c"
    if n: "no_match E directory q" and o1: "send_ok E (attempts c)" and o2: "send_ok E (Suc (attempts c))"
    for q c
  proof -
    from stream_no_match[OF n, of "print (Search addr q) c"]
    have f: "\<not> fst (?r q c)" and s: "sent (snd (?r q c)) = sent c"
      and a: "attempts (snd (?r q c)) = attempts c"
      by (simp_all add: print_def)
    from answer_query_not_found[OF f] o1 o2 a s show ?thesis by simp
  qed
  have one: "fst (answer_query E addr directory q conn) = Inr () \<and>
      sent (snd (answer_query E addr directory q conn)) =
        sent conn @ [''No matching subtitles found.'', ''\<newline><END>\<newline>'']"
    if "no_match E directory q" "send_ok E (attempts conn)" "send_ok E (Suc (attempts conn))"
    using none[OF that] by (simp add: delivered_def end_marker_literal encode_no_results_msg)
  have session: "sent (handle_client E addr directory [Inr received] conn) =
        sent conn @ [''No matching subtitles found.'', ''\<newline><END>\<newline>'']"
    if ne: "strip received \<noteq> []" and n: "no_match E directory (strip received)"
      and o1: "send_ok E (attempts conn)" and o2: "send_ok E (Suc (attempts conn))"
  proof -
    let ?c = "print (New_connection addr) conn"
    have "send_ok E (attempts ?c)" "send_ok E (Suc (attempts ?c))"
      using o1 o2 by (simp_all add: print_def)
    from none[OF n this]
    have "answer_query E addr directory (strip received) ?c =
        (Inr (), delivered end_marker (delivered (encode no_results_msg) (snd (?r (strip received) ?c))))"
      and "sent (snd (?r (strip received) ?c)) = sent conn"
      by (simp_all add: print_def)
    then show ?thesis using ne
      by (simp add: handle_client_def Let_def delivered_def print_def end_marker_literal
          encode_no_results_msg)
  qed
  from found nf one session show ?thesis by blast
qed

theorem no_match_notice_and_end_marker_witness:
  "no_match ex_env ''d'' ''zebra'' \<and> send_ok ex_env (attempts ex_conn) \<and>
   send_ok ex_env (Suc (attempts ex_conn)) \<and>
   fst (answer_query ex_env ''peer'' ''d'' ''zebra'' ex_conn) = Inr () \<and>
   sent (snd (answer_query ex_env ''peer'' ''d'' ''zebra'' ex_conn)) =
     sent ex_conn @ [''No matching subtitles found.'', ''\<newline><END>\<newline>''] \<and>
   strip ''zebra\<newline>'' = ''zebra'' \<and>
   sent (handle_client ex_env ''peer'' ''d'' [Inr ''zebra\<newline>''] ex_conn) =
     sent ex_conn @ [''No matching subtitles found.'', ''\<newline><END>\<newline>''] \<and>
   fst (stream_subtitle_search ex_env ''d'' ''well'' (print (Search ''peer'' ''well'') ex_conn)) \<and>
   sent (snd (answer_query ex_env ''peer'' ''d'' ''well'' ex_conn)) =
     sent (snd (stream_subtitle_search ex_env ''d'' ''well'' (print (Search ''peer'' ''well'') ex_conn))) @
       [''\<newline><END>\<newline>'']"
proof -
  have z: "strip ''zebra\<newline>'' = ''zebra''" by code_simp
  have h1: "no_match ex_env ''d'' ''zebra''" by code_simp
  have h2: "send_ok ex_env (attempts ex_conn)" "send_ok ex_env (Suc (attempts ex_conn))"
    by (rule ex_env_simps)+
  have h3: "strip ''zebra\<newline>'' \<noteq> []" "no_match ex_env ''d'' (strip ''zebra\<newline>'')"
    unfolding z using h1 by simp_all
  have h4: "fst (stream_subtitle_search ex_env ''d'' ''well'' (print (Search ''peer'' ''well'') ex_conn))"
    by code_simp
  have h5: "send_ok ex_env (attempts (snd (stream_subtitle_search ex_env ''d'' ''well''
              (print (Search ''peer'' ''well'') ex_conn))))"
    by (rule ex_env_simps)
  from no_match_notice_and_end_marker
    [where E = ex_env and directory = "''d''" and q = "''zebra''" and conn = ex_conn
       and addr = "''peer''" and received = "''zebra\<newline>''"] h1 h2 h3
  have c1: "fst (answer_query ex_env ''peer'' ''d'' ''zebra'' ex_conn) = Inr () \<and>
      sent (snd (answer_query ex_env ''peer'' ''d'' ''zebra'' ex_conn)) =
        sent ex_conn @ [''No matching subtitles found.'', ''\<newline><END>\<newline>'']"
    and c2: "sent (handle_client ex_env ''peer'' ''d'' [Inr ''zebra\<newline>''] ex_conn) =
     sent ex_conn @ [''No matching subtitles found.'', ''\<newline><END>\<newline>'']"
    by blast+
  from no_match_notice_and_end_marker
    [where E = ex_env and directory = "''d''" and q = "''well''" and conn = ex_conn
       and addr = "''peer''"] h4 h5
  have c3: "sent (snd (answer_query ex_env ''peer'' ''d'' ''well'' ex_conn)) =
     sent (snd (stream_subtitle_search ex_env ''d'' ''well'' (print (Search ''peer'' ''well'') ex_conn))) @
       [''\<newline><END>\<newline>'']"
    by blast
  from z h1 h2 h4 c1 c2 c3 show ?thesis by blast
qed

subsection \<open>A translation whose text is blank\<close>

text \<open>
  Claim C9. When the file of the other language loads and the matcher finds a record in it
  whose text is empty once stripped, the resolver returns that record with the empty text,
  and the frame sent for the match is the one with \<open>No corresponding translation found.\<close>:
  the translation is present only when its text is not empty.
\<close>

theorem empty_translation_is_absent:
  assumes "matches q s"
    and "content E (other_lang_file_path file_path lang_suffix other_lang_suffix) = Some (Srt subs2)"
    and "find_closest_sub (sub_start s) subs2 1000000 = Inr (Some r)"
    and "strip (sub_text r) = []"
    and "send_ok E (attempts (io st))"
  shows "find_translation_in_other_lang E directory (sub_start s) file_path lang_suffix
           other_lang_suffix 1000000 =
           Inr (Some ([], sub_start r, sub_end r,
                      other_lang_file_path file_path lang_suffix other_lang_suffix)) \<and>
         sent (io (final (scan_subs E directory q lang_suffix other_lang_suffix file_path [s] st))) =
           sent (io st) @
             [encode (format_single_result
                        \<lparr>original = original_entry lang_suffix file_path s, translation = None\<rparr>)] \<and>
         format_single_result \<lparr>original = original_entry lang_suffix file_path s, translation = None\<rparr> =
           heading (original_entry lang_suffix file_path s) @ ''\<newline>'' @
           normalize_text (sub_text s) @ ''\<newline>\<newline>'' @
           ''No corresponding translation found.\<newline>\<newline>'' @ replicate 80 CHR ''-''"
proof -
  let ?tr = "Some ([], sub_start r, sub_end r,
                      other_lang_file_path file_path lang_suffix other_lang_suffix)"
  have f: "find_translation_in_other_lang E directory (sub_start s) file_path lang_suffix
           other_lang_suffix 1000000 = Inr ?tr"
    using assms(3,4) by (simp add: find_translation_loaded[OF assms(2)])
  have t: "translation_entry other_lang_suffix ?tr = None"
    by (simp add: translation_entry_def)
  have "sent (io (final (on_match E directory lang_suffix other_lang_suffix file_path s st))) =
        sent (io st) @ [frame_of lang_suffix other_lang_suffix file_path s ?tr]"
    by (simp add: on_match_delivered[OF f assms(5)] delivered_def)
  moreover have "final (scan_subs E directory q lang_suffix other_lang_suffix file_path [s] st) =
        final (on_match E directory lang_suffix other_lang_suffix file_path s st)"
    using assms(1) by (simp split: outcome.splits)
  ultimately have "sent (io (final (scan_subs E directory q lang_suffix other_lang_suffix file_path [s] st))) =
           sent (io st) @
             [encode (format_single_result
                        \<lparr>original = original_entry lang_suffix file_path s, translation = None\<rparr>)]"
    by (simp add: frame_of_def t)
  moreover have "format_single_result \<lparr>original = original_entry lang_suffix file_path s, translation = None\<rparr> =
           heading (original_entry lang_suffix file_path s) @ ''\<newline>'' @
           normalize_text (sub_text s) @ ''\<newline>\<newline>'' @
           ''No corresponding translation found.\<newline>\<newline>'' @ replicate 80 CHR ''-''"
    by (simp add: format_single_result_def no_translation_line_def original_entry_def)
  ultimately show ?thesis using f by blast
qed

theorem empty_translation_is_absent_witness:
  "matches ''goodbye'' (sub_at 5000 ''Goodbye'') \<and>
   content ex_env (other_lang_file_path ''d/a_en.srt'' ''en'' ''ru'') =
     Some (Srt [sub_at 1200 ''Privet mir'', sub_at 5100 ''   '']) \<and>
   find_closest_sub (sub_start (sub_at 5000 ''Goodbye''))
     [sub_at 1200 ''Privet mir'', sub_at 5100 ''   ''] 1000000 = Inr (Some (sub_at 5100 ''   '')) \<and>
   strip (sub_text (sub_at 5100 ''   '')) = [] \<and>
   send_ok ex_env (attempts (io ex_state)) \<and>
   find_translation_in_other_lang ex_env ''d'' (sub_start (sub_at 5000 ''Goodbye'')) ''d/a_en.srt''
     ''en'' ''ru'' 1000000 =
     Inr (Some ([], sub_start (sub_at 5100 ''   ''), sub_end (sub_at 5100 ''   ''),
                other_lang_file_path ''d/a_en.srt'' ''en'' ''ru'')) \<and>
   sent (io (final (scan_subs ex_env ''d'' ''goodbye'' ''en'' ''ru'' ''d/a_en.srt''
                      [sub_at 5000 ''Goodbye''] ex_state))) =
     sent (io ex_state) @
       [encode (format_single_result
                  \<lparr>original = original_entry ''en'' ''d/a_en.srt'' (sub_at 5000 ''Goodbye''),
                     translation = None\<rparr>)] \<and>
   encode (format_single_result
             \<lparr>original = original_entry ''en'' ''d/a_en.srt'' (sub_at 5000 ''Goodbye''),
                translation = None\<rparr>) =
     ''EN (d/a_en.srt) 00:00:05,000 -> 00:00:05,900\<newline>Goodbye\<newline>\<newline>No corresponding translation found.\<newline>\<newline>--------------------------------------------------------------------------------''"
proof -
  have h1: "matches ''goodbye'' (sub_at 5000 ''Goodbye'')" by code_simp
  have h2: "content ex_env (other_lang_file_path ''d/a_en.srt'' ''en'' ''ru'') =
     Some (Srt [sub_at 1200 ''Privet mir'', sub_at 5100 ''   ''])"
    by (simp add: ex_paths ex_env_simps ex_content_def)
  have h3: "find_closest_sub (sub_start (sub_at 5000 ''Goodbye''))
     [sub_at 1200 ''Privet mir'', sub_at 5100 ''   ''] 1000000 = Inr (Some (sub_at 5100 ''   ''))"
    by code_simp
  have h4: "strip (sub_text (sub_at 5100 ''   '')) = []" by code_simp
  have h5: "send_ok ex_env (attempts (io ex_state))" by (rule ex_env_simps)
  have v: "encode (format_single_result
             \<lparr>original = original_entry ''en'' ''d/a_en.srt'' (sub_at 5000 ''Goodbye''),
                translation = None\<rparr>) =
     ''EN (d/a_en.srt) 00:00:05,000 -> 00:00:05,900\<newline>Goodbye\<newline>\<newline>No corresponding translation found.\<newline>\<newline>--------------------------------------------------------------------------------''"
    by code_simp
  from empty_translation_is_absent [OF h1 h2 h3 h4 h5, where directory = "''d''"]
    h1 h2 h3 h4 h5 v
  show ?thesis by blast
qed

subsection \<open>Every occurrence of the suffix is replaced\<close>



end
